theory Spec2Isabelle
  imports Main "HOL-Library.AList"
begin

section \<open>Strings as the crawler uses them\<close>

text \<open>
  Python strings are modelled as \<^typ>\<open>string\<close>, the lists of the code points 0 to
  255.  On these code points \<open>isspace\<close> and \<open>lower\<close> are those of Python's \<open>str\<close>.
\<close>

definition rstrip :: "char \<Rightarrow> string \<Rightarrow> string" where
  \<comment> \<open>\<open>s.rstrip(c)\<close> for a one-character argument: every trailing \<open>c\<close> is removed.\<close>
  "rstrip c s = rev (dropWhile (\<lambda>x. x = c) (rev s))"

definition split_first :: "char \<Rightarrow> string \<Rightarrow> string" where
  \<comment> \<open>\<open>s.split(c)[0]\<close>: the part of \<open>s\<close> before the first \<open>c\<close>.\<close>
  "split_first c s = takeWhile (\<lambda>x. x \<noteq> c) s"

definition isspace :: "char \<Rightarrow> bool" where
  \<comment> \<open>The characters that \<open>str.strip()\<close> removes: tab to carriage return, the four
      separators, the blank, the next-line control (U+0085) and the no-break space
      (U+00A0).\<close>
  "isspace c =
     (let n = of_char c :: nat
      in (9 \<le> n \<and> n \<le> 13) \<or> (28 \<le> n \<and> n \<le> 32) \<or> n = 133 \<or> n = 160)"

definition strip :: "string \<Rightarrow> string" where
  "strip s = rev (dropWhile isspace (rev (dropWhile isspace s)))"

definition lower_char :: "char \<Rightarrow> char" where
  \<comment> \<open>The capital letters: \<open>A\<close> to \<open>Z\<close>, and U+00C0 to U+00DE without the
      multiplication sign.\<close>
  "lower_char c =
     (let n = of_char c :: nat
      in if (65 \<le> n \<and> n \<le> 90) \<or> (192 \<le> n \<and> n \<le> 222 \<and> n \<noteq> 215)
         then char_of (n + 32) else c)"

definition lower :: "string \<Rightarrow> string" where
  "lower s = map lower_char s"

fun startswith :: "string \<Rightarrow> string \<Rightarrow> bool" where
  \<comment> \<open>\<open>startswith s p\<close> is \<open>s.startswith(p)\<close>.\<close>
  "startswith s [] = True"
| "startswith [] (p # ps) = False"
| "startswith (c # cs) (p # ps) = (c = p \<and> startswith cs ps)"

fun contains :: "string \<Rightarrow> string \<Rightarrow> bool" where
  \<comment> \<open>\<open>contains s p\<close> is the Python test \<open>p in s\<close>.\<close>
  "contains [] p = (p = [])"
| "contains (c # cs) p = (startswith (c # cs) p \<or> contains cs p)"

section \<open>URL canonicalisation (\<open>scraper_crawl.py\<close>)\<close>

datatype error = AttributeError | ValueError | JSONDecodeError | PyMongoError | FileExistsError

text \<open>
  \<open>urljoin\<close> is the function of Python's \<open>urllib.parse\<close>.  It starts with
  \<^verbatim>\<open>if not base: return url\<close> and \<^verbatim>\<open>if not url: return base\<close>; the resolution of a
  non-empty reference against a non-empty base (RFC 3986) is the parameter \<open>resolve\<close>,
  which is \<open>None\<close> where \<open>urljoin\<close> raises \<open>ValueError\<close>, as it does on a reference
  with an unbalanced bracket in its network location.
\<close>

definition urljoin :: "(string \<Rightarrow> string \<Rightarrow> string option) \<Rightarrow> string \<Rightarrow> string \<Rightarrow> string option" where
  "urljoin resolve base ref =
     (if base = [] then Some ref else if ref = [] then Some base else resolve base ref)"

definition normalize_url :: "(string \<Rightarrow> string \<Rightarrow> string option) \<Rightarrow> string \<Rightarrow> string \<Rightarrow> error + string option" where
  "normalize_url resolve href base =
     (if href = [] then Inr None
      else (case urljoin resolve base (split_first CHR ''#'' href) of
              None \<Rightarrow> Inl ValueError
            | Some t \<Rightarrow> Inr (Some (rstrip CHR ''/'' t))))"

definition absolute_reference :: "string \<Rightarrow> string \<Rightarrow> string option" where
  \<comment> \<open>The resolution step on the references used in the site examples below: an
      absolute URL with a network location (\<open>http://host/path\<close>) is returned as it is.\<close>
  "absolute_reference base ref = Some ref"

definition strict_reference :: "string \<Rightarrow> string \<Rightarrow> string option" where
  \<comment> \<open>The same, with the reference \<open>http://[x\<close>, on which \<open>urljoin\<close> raises.\<close>
  "strict_reference base ref = (if ref = ''http://[x'' then None else Some ref)"

definition urljoin_table :: "string \<Rightarrow> string \<Rightarrow> string option" where
  \<comment> \<open>What \<open>urljoin\<close> returns on three more pairs of a base and a reference: a query
      that ends in a slash, a URL with an empty query (the \<open>?\<close> is dropped), and the
      root path against a relative base.\<close>
  "urljoin_table base ref =
     map_of [((''http://a/'', ''b?/''), ''http://a/b?/''),
             ((''http://a/'', ''http://a/b?''), ''http://a/b''),
             ((''x'', ''/''), ''/'')] (base, ref)"

section \<open>Pages and extraction (\<open>scraper_crawl.py\<close>)\<close>

text \<open>
  The HTML parser is a library.  A parsed page is the record of what the selectors of
  \<open>extract_links\<close> and \<open>parse_article\<close> return on it: \<open>None\<close> where
  \<open>select_one\<close> finds no element, and for the \<open>title\<close> element the value of its
  \<open>.string\<close>, which the parser gives as \<open>None\<close> when the element does not hold
  exactly one string.  The element texts are those of \<open>get_text(" ", strip=True)\<close>.
\<close>

record soup =
  a_hrefs :: "string list"                 \<comment> \<open>\<open>href\<close> of every \<open>a\<close> element that has one\<close>
  sel_h1 :: "string option"                \<comment> \<open>text of \<open>select_one("h1")\<close>\<close>
  sel_title :: "string option option"      \<comment> \<open>\<open>soup.title\<close>, then its \<open>.string\<close>\<close>
  sel_meta :: "string option option"       \<comment> \<open>\<open>meta[name='description']\<close>, then its \<open>content\<close>\<close>
  sel_author_a :: "string option"          \<comment> \<open>text of \<open>select_one(".author a")\<close>\<close>
  sel_byline :: "string option"            \<comment> \<open>text of \<open>select_one(".byline")\<close>\<close>
  sel_time :: "string option"              \<comment> \<open>text of \<open>select_one("time")\<close>\<close>
  sel_tags_a :: "string list"              \<comment> \<open>texts of \<open>select(".tags a")\<close>\<close>
  page_text :: string                      \<comment> \<open>\<open>soup.get_text(" ", strip=True)\<close>\<close>

record row =
  title :: string
  url :: string
  date :: string
  author :: string
  category :: string
  excerpt :: string
  content_length :: nat
  tags :: string
  row_notes :: string   \<comment> \<open>the column \<open>notes\<close>\<close>

fun join :: "string \<Rightarrow> string list \<Rightarrow> string" where
  \<comment> \<open>\<open>sep.join(xs)\<close>\<close>
  "join sep [] = []"
| "join sep [x] = x"
| "join sep (x # y # ys) = x @ sep @ join sep (y # ys)"

definition parse_title :: "soup \<Rightarrow> error + string" where
  "parse_title sp =
     (case sel_h1 sp of
        Some t \<Rightarrow> Inr t
      | None \<Rightarrow>
          (case sel_title sp of
             None \<Rightarrow> Inr []
           | Some None \<Rightarrow> Inl AttributeError    \<comment> \<open>\<open>soup.title.string.strip()\<close> on \<open>None\<close>\<close>
           | Some (Some t) \<Rightarrow> Inr (strip t)))"

definition parse_excerpt :: "soup \<Rightarrow> string" where
  "parse_excerpt sp =
     (case sel_meta sp of
        Some (Some c) \<Rightarrow> (if c = [] then [] else strip c)
      | _ \<Rightarrow> [])"

definition parse_author :: "soup \<Rightarrow> string" where
  "parse_author sp =
     (case sel_author_a sp of
        Some t \<Rightarrow> t
      | None \<Rightarrow> (case sel_byline sp of Some t \<Rightarrow> t | None \<Rightarrow> []))"

definition parse_date :: "soup \<Rightarrow> string" where
  "parse_date sp = (case sel_time sp of Some t \<Rightarrow> t | None \<Rightarrow> [])"

definition parse_tags :: "soup \<Rightarrow> string" where
  "parse_tags sp = (if sel_tags_a sp \<noteq> [] then join '', '' (sel_tags_a sp) else [])"

definition parse_article :: "(string \<Rightarrow> soup) \<Rightarrow> string \<Rightarrow> string \<Rightarrow> error + row" where
  "parse_article bs html u =
     (let sp = bs html in
      case parse_title sp of
        Inl e \<Rightarrow> Inl e
      | Inr t \<Rightarrow>
          Inr \<lparr> title = t, url = u, date = parse_date sp, author = parse_author sp,
                category = ''History'', excerpt = parse_excerpt sp,
                content_length = length (page_text sp), tags = parse_tags sp,
                row_notes = [] \<rparr>)"

fun collect_links :: "(string \<Rightarrow> string \<Rightarrow> string option) \<Rightarrow> string \<Rightarrow> string list \<Rightarrow> error + string list" where
  \<comment> \<open>The loop of \<open>extract_links\<close> over the \<open>href\<close> values; an exception of
      \<open>normalize_url\<close> ends it.\<close>
  "collect_links resolve base [] = Inr []"
| "collect_links resolve base (h # hs) =
     (case normalize_url resolve (strip h) base of
        Inl e \<Rightarrow> Inl e
      | Inr full \<Rightarrow>
          (case collect_links resolve base hs of
             Inl e \<Rightarrow> Inl e
           | Inr links \<Rightarrow>
               Inr (case full of
                      None \<Rightarrow> links
                    | Some f \<Rightarrow> (if f = [] then links else f # links))))"

definition extract_links :: "(string \<Rightarrow> soup) \<Rightarrow> (string \<Rightarrow> string \<Rightarrow> string option) \<Rightarrow> string \<Rightarrow> string \<Rightarrow> error + string list" where
  "extract_links bs resolve html base = collect_links resolve base (a_hrefs (bs html))"

definition is_internal :: "(string \<Rightarrow> string option) \<Rightarrow> string \<Rightarrow> string \<Rightarrow> bool" where
  \<comment> \<open>\<open>netloc u\<close> is \<open>urlparse(u).netloc\<close>, \<open>None\<close> when \<open>urlparse\<close> raises.\<close>
  "is_internal netloc u base_netloc =
     (case netloc u of None \<Rightarrow> False | Some n \<Rightarrow> n = [] \<or> n = base_netloc)"

section \<open>The crawl loop (\<open>scraper_crawl.py\<close>, \<open>main\<close>)\<close>

text \<open>
  The environment of one run: the configuration, the two fetch tiers as functions of the
  URL (\<open>None\<close> where \<open>requests_get\<close> returns \<open>None\<close> and where the browser
  fetch raises), and the library functions.
\<close>

record env =
  START_URL :: string
  MAX_RECORDS :: int
  MAX_PAGES_TO_VISIT :: int
  requests_get :: "string \<Rightarrow> string option"
  fetch_with_selenium :: "string \<Rightarrow> string option"
  BeautifulSoup :: "string \<Rightarrow> soup"
  url_resolve :: "string \<Rightarrow> string \<Rightarrow> string option"
  url_netloc :: "string \<Rightarrow> string option"

text \<open>
  The state of the loop.  \<open>fetched\<close> lists the URLs handed to the fetch tier, in
  order, and \<open>out_csv\<close> the rows appended to the output file by this run.  \<open>raised\<close>
  is the exception that has ended the loop, when one has: \<open>extract_links\<close> is called
  outside every \<open>try\<close>, so that an exception of \<open>urljoin\<close> leaves \<open>main\<close>; the other
  fields are then as the exception found them, and the rows in the buffer are never
  written.
\<close>

record crawl_state =
  q :: "string list"
  visited :: "string set"
  articles :: "string set"
  pages_visited :: nat
  scraped_rows :: "row list"
  out_csv :: "row list"
  fetched :: "string list"
  raised :: "error option"

definition fetch :: "env \<Rightarrow> string \<Rightarrow> string option" where
  \<comment> \<open>The response text, else the browser's page source; \<open>None\<close> when both fail.\<close>
  "fetch e u = (case requests_get e u of Some t \<Rightarrow> Some t | None \<Rightarrow> fetch_with_selenium e u)"

definition looks_like_article :: "string \<Rightarrow> bool" where
  "looks_like_article u =
     (let l = lower u in
      contains l ''/article'' \<or> contains l ''/articles'' \<or> contains l ''/article-'')"

definition enqueue_links :: "env \<Rightarrow> string \<Rightarrow> string \<Rightarrow> string \<Rightarrow> crawl_state \<Rightarrow> crawl_state" where
  "enqueue_links e base_netloc html u s =
     (case extract_links (BeautifulSoup e) (url_resolve e) html u of
        Inl err \<Rightarrow> s\<lparr> raised := Some err \<rparr>
      | Inr links \<Rightarrow>
          s\<lparr> q := q s @
               filter (\<lambda>n. n \<notin> visited s)
                 (map (rstrip CHR ''/'')
                    (filter (\<lambda>l. is_internal (url_netloc e) l base_netloc) links)) \<rparr>)"

definition collect_article :: "env \<Rightarrow> string \<Rightarrow> string \<Rightarrow> crawl_state \<Rightarrow> crawl_state" where
  "collect_article e html u s =
     (if looks_like_article u then
        (let norm = rstrip CHR ''/'' u in
         if norm \<notin> articles s then
           (case parse_article (BeautifulSoup e) html u of
              Inr r \<Rightarrow> s\<lparr> scraped_rows := scraped_rows s @ [r],
                          articles := insert norm (articles s) \<rparr>
            | Inl err \<Rightarrow> s)
         else s)
      else s)"

definition flush_periodic :: "crawl_state \<Rightarrow> crawl_state" where
  "flush_periodic s =
     (if length (scraped_rows s) \<ge> 10
      then s\<lparr> out_csv := out_csv s @ scraped_rows s, scraped_rows := [] \<rparr>
      else s)"

definition loop_body :: "env \<Rightarrow> string \<Rightarrow> crawl_state \<Rightarrow> crawl_state" where
  "loop_body e base_netloc s =
     (case q s of
        [] \<Rightarrow> s
      | u # rest \<Rightarrow>
          (let s1 = s\<lparr> q := rest \<rparr> in
           if u \<in> visited s1 then s1
           else
             (let s2 = s1\<lparr> visited := insert u (visited s1),
                           pages_visited := pages_visited s1 + 1,
                           fetched := fetched s1 @ [u] \<rparr> in
              case fetch e u of
                None \<Rightarrow> s2
              | Some html \<Rightarrow>
                  (if html = [] then s2
                   else
                     (let s3 = enqueue_links e base_netloc html u s2 in
                      if raised s3 \<noteq> None then s3
                      else flush_periodic (collect_article e html u s3))))))"

definition all_rows :: "crawl_state \<Rightarrow> row list" where
  \<comment> \<open>the rows collected so far, written or still in the buffer\<close>
  "all_rows s = out_csv s @ scraped_rows s"

definition loop_cond :: "env \<Rightarrow> crawl_state \<Rightarrow> bool" where
  "loop_cond e s =
     (q s \<noteq> [] \<and> int (card (articles s)) < MAX_RECORDS e
      \<and> int (pages_visited s) < MAX_PAGES_TO_VISIT e)"

function crawl_loop :: "env \<Rightarrow> string \<Rightarrow> crawl_state \<Rightarrow> crawl_state" where
  \<comment> \<open>The \<open>while\<close> loop: it ends when its condition fails, or with an exception.\<close>
  "crawl_loop e base_netloc s =
     (if raised s = None \<and> loop_cond e s
      then crawl_loop e base_netloc (loop_body e base_netloc s) else s)"
  by pat_completeness auto
termination
proof (relation "measures [\<lambda>(e, b, s). nat (MAX_PAGES_TO_VISIT e - int (pages_visited s)),
                           \<lambda>(e, b, s). length (q s)]")
  show "wf (measures [\<lambda>(e, b, s). nat (MAX_PAGES_TO_VISIT e - int (pages_visited s)),
                      \<lambda>(e, b, s). length (q s)])"
    by simp
next
  fix e :: env and base_netloc :: string and s :: crawl_state
  assume "raised s = None \<and> loop_cond e s"
  then have c: "loop_cond e s" by simp
  then obtain u rest where qs: "q s = u # rest"
    by (cases "q s") (auto simp: loop_cond_def)
  have lt: "int (pages_visited s) < MAX_PAGES_TO_VISIT e"
    using c by (simp add: loop_cond_def)
  show "((e, base_netloc, loop_body e base_netloc s), (e, base_netloc, s))
        \<in> measures [\<lambda>(e, b, s). nat (MAX_PAGES_TO_VISIT e - int (pages_visited s)),
                     \<lambda>(e, b, s). length (q s)]"
  proof (cases "u \<in> visited s")
    case True
    then show ?thesis using qs by (simp add: loop_body_def)
  next
    case False
    have "pages_visited (loop_body e base_netloc s) = pages_visited s + 1"
      using False qs
      by (auto simp: loop_body_def Let_def flush_periodic_def collect_article_def
            enqueue_links_def split: option.splits sum.splits)
    then show ?thesis using lt by simp
  qed
qed

declare crawl_loop.simps [simp del]


definition mark_visited :: "string \<Rightarrow> string list \<Rightarrow> crawl_state \<Rightarrow> crawl_state" where
  \<comment> \<open>The state after \<open>visited.add(url)\<close> and \<open>pages_visited += 1\<close>, as
      \<open>loop_body\<close> builds it before the fetch.\<close>
  "mark_visited u rest s =
     s\<lparr> q := rest, visited := insert u (visited s), pages_visited := pages_visited s + 1,
        fetched := fetched s @ [u] \<rparr>"

text \<open>
  What the start of \<open>main\<close> finds on disk: no output file, a file that
  \<open>read_csv\<close> or the \<open>url\<close> column lookup fails on, or the \<open>url\<close> column.
\<close>

datatype prior_csv = NoFile | Unreadable | UrlColumn "string list"

definition load_existing :: "prior_csv \<Rightarrow> string set" where
  "load_existing p =
     (case p of UrlColumn us \<Rightarrow> set (map (rstrip CHR ''/'') us) | _ \<Rightarrow> {})"

definition initial_state :: "env \<Rightarrow> prior_csv \<Rightarrow> crawl_state" where
  "initial_state e p =
     \<lparr> q = [START_URL e], visited = {}, articles = load_existing p, pages_visited = 0,
       scraped_rows = [], out_csv = [], fetched = [], raised = None \<rparr>"

definition final_flush :: "crawl_state \<Rightarrow> crawl_state" where
  "final_flush s =
     (if scraped_rows s \<noteq> []
      then s\<lparr> out_csv := out_csv s @ scraped_rows s, scraped_rows := [] \<rparr>
      else s)"

definition crawl_main :: "env \<Rightarrow> prior_csv \<Rightarrow> error + crawl_state" where
  \<comment> \<open>\<open>main\<close> of \<open>scraper_crawl.py\<close>; \<open>urlparse(base)\<close> raising ends the run, and so
      does an exception in the loop, before the final flush.\<close>
  "crawl_main e p =
     (case url_netloc e (START_URL e) of
        None \<Rightarrow> Inl ValueError
      | Some base_netloc \<Rightarrow>
          (let s = crawl_loop e base_netloc (initial_state e p) in
           case raised s of
             Some err \<Rightarrow> Inl err
           | None \<Rightarrow> Inr (final_flush s)))"

section \<open>Documents and the store (\<open>store_to_db.py\<close>, \<open>import_fallback.py\<close>)\<close>

text \<open>
  A record is what \<open>json.loads\<close> or \<open>csv.DictReader\<close> gives: a JSON value, an
  object being an association list of its keys (\<open>JNum\<close> holds the integers).
\<close>

datatype json = JNull | JBool bool | JNum int | JStr string | JArr "json list"
  | JObj "(string \<times> json) list"

fun truthy :: "json \<Rightarrow> bool" where
  \<comment> \<open>Python's truth value of the parsed value\<close>
  "truthy JNull = False"
| "truthy (JBool b) = b"
| "truthy (JNum n) = (n \<noteq> 0)"
| "truthy (JStr s) = (s \<noteq> [])"
| "truthy (JArr xs) = (xs \<noteq> [])"
| "truthy (JObj kvs) = (kvs \<noteq> [])"

fun py_get :: "json \<Rightarrow> string \<Rightarrow> error + json" where
  \<comment> \<open>\<open>rec.get(k)\<close>: \<open>None\<close> for a missing key; only a dict has \<open>get\<close>.\<close>
  "py_get (JObj kvs) k = Inr (case map_of kvs k of None \<Rightarrow> JNull | Some v \<Rightarrow> v)"
| "py_get other k = Inl AttributeError"

type_synonym doc = "(string \<times> json) list"

text \<open>
  \<open>UpdateOne(filter, {"$set": rec}, upsert=...)\<close> with the one-field filter the
  code builds.
\<close>

datatype update_one = UpdateOne (filter_field: string) (filter_value: json)
  (set_fields: json) (upsert: bool)

text \<open>
  The store is the document database, a collaborator of the program.  Its model: a
  server answers the liveness probe or not, accepts writes or raises, and holds a list
  of documents.  An update modifies the first document whose filter field equals the
  filter value (a missing field matching \<open>null\<close>), and with \<open>upsert\<close> inserts the
  filter field and the set fields where none matches.  The operations of one bulk write
  are applied in their order; uniqueness violations of the index are outside the model.
  \<open>attempts\<close> counts the connections tried, and \<open>received\<close> lists the acknowledged
  writes, one list of operations for each call.
\<close>

record mongo =
  reachable :: bool
  accepts_writes :: bool
  docs :: "doc list"
  attempts :: nat
  received :: "update_one list list"

definition doc_matches :: "string \<Rightarrow> json \<Rightarrow> doc \<Rightarrow> bool" where
  "doc_matches k v d = (case map_of d k of None \<Rightarrow> v = JNull | Some x \<Rightarrow> x = v)"

definition apply_set :: "doc \<Rightarrow> json \<Rightarrow> doc" where
  "apply_set d upd =
     (case upd of
        JObj kvs \<Rightarrow> foldr (\<lambda>(k, v) d'. AList.update k v d') kvs d
      | _ \<Rightarrow> d)"

fun update_docs :: "update_one \<Rightarrow> doc list \<Rightarrow> doc list" where
  "update_docs op [] =
     (if upsert op then [apply_set [(filter_field op, filter_value op)] (set_fields op)] else [])"
| "update_docs op (d # ds) =
     (if doc_matches (filter_field op) (filter_value op) d
      then apply_set d (set_fields op) # ds
      else d # update_docs op ds)"

definition ping :: "mongo \<Rightarrow> mongo \<times> bool" where
  \<comment> \<open>\<open>MongoClient(...)\<close> and \<open>client.admin.command("ping")\<close>: one connection
      attempt, and whether it succeeded\<close>
  "ping m = (m\<lparr> attempts := attempts m + 1 \<rparr>, reachable m)"

definition bulk_write :: "mongo \<Rightarrow> update_one list \<Rightarrow> error + mongo" where
  "bulk_write m ops =
     (if accepts_writes m
      then Inr (m\<lparr> docs := fold update_docs ops (docs m), received := received m @ [ops] \<rparr>)
      else Inl PyMongoError)"

definition create_index :: "mongo \<Rightarrow> error + mongo" where
  "create_index m = (if accepts_writes m then Inr m else Inl PyMongoError)"

section \<open>The files and the configuration of the durability layer\<close>

text \<open>
  The two files the scripts touch, each a list of lines when it exists:
  \<open>db_fallback.jsonl\<close> and the name \<open>with_suffix(".imported.jsonl")\<close> gives it, which
  is never the same name.
\<close>

record files =
  fallback_file :: "string list option"
  imported_file :: "string list option"

record world =
  disk :: files
  primary :: mongo
  local_store :: mongo

record config =
  MONGO_URI :: "string option"            \<comment> \<open>the environment variable, when set\<close>
  BATCH_SIZE :: int
  json_loads :: "string \<Rightarrow> json option"   \<comment> \<open>\<open>None\<close> where \<open>json.loads\<close> raises\<close>
  json_dumps :: "json \<Rightarrow> string"
  rename_overwrites :: bool               \<comment> \<open>whether \<open>Path.rename\<close> replaces an existing file\<close>
  csv_rows :: "json list option"          \<comment> \<open>the rows of \<open>output_with_summaries.csv\<close>\<close>

section \<open>Ingestion (\<open>store_to_db.py\<close>)\<close>

definition load_rows :: "config \<Rightarrow> json list" where
  "load_rows c = (case csv_rows c of None \<Rightarrow> [] | Some rows \<Rightarrow> rows)"

definition save_fallback :: "config \<Rightarrow> json list \<Rightarrow> files \<Rightarrow> files" where
  \<comment> \<open>The file is opened with mode \<open>"w"\<close>, and each row is written with a newline
      after it: these are the lines of the file as long as no serialised row holds a
      line boundary of its own.\<close>
  "save_fallback c rows f = f\<lparr> fallback_file := Some (map (json_dumps c) rows) \<rparr>"

definition upsert_op :: "json \<Rightarrow> error + update_one" where
  \<comment> \<open>The operation \<open>upsert_to_mongo\<close> issues for one row.\<close>
  "upsert_op r =
     (case py_get r ''url'' of
        Inl e \<Rightarrow> Inl e
      | Inr u \<Rightarrow> Inr (UpdateOne ''url'' u r True))"

fun upsert_to_mongo :: "json list \<Rightarrow> mongo \<Rightarrow> mongo \<times> error option" where
  \<comment> \<open>One \<open>update_one\<close> call for each row; the first exception ends the loop.\<close>
  "upsert_to_mongo [] m = (m, None)"
| "upsert_to_mongo (r # rows) m =
     (case upsert_op r of
        Inl e \<Rightarrow> (m, Some e)
      | Inr op \<Rightarrow>
          (case bulk_write m [op] of
             Inl e \<Rightarrow> (m, Some e)
           | Inr m' \<Rightarrow> upsert_to_mongo rows m'))"

datatype ingest_outcome = NoUri | NoRows | Upserted | Degraded

definition store_to_db_main :: "config \<Rightarrow> world \<Rightarrow> world \<times> ingest_outcome" where
  "store_to_db_main c w =
     (case MONGO_URI c of
        None \<Rightarrow> (w, NoUri)
      | Some uri \<Rightarrow>
          (let rows = load_rows c in
           if rows = [] then (w, NoRows)
           else
             (case ping (primary w) of
                (m1, False) \<Rightarrow>
                  (w\<lparr> primary := m1, disk := save_fallback c rows (disk w) \<rparr>, Degraded)
              | (m1, True) \<Rightarrow>
                  (case upsert_to_mongo rows m1 of
                     (m2, Some e) \<Rightarrow>
                       (w\<lparr> primary := m2, disk := save_fallback c rows (disk w) \<rparr>, Degraded)
                   | (m2, None) \<Rightarrow> (w\<lparr> primary := m2 \<rparr>, Upserted)))))"

section \<open>Reconciliation (\<open>import_fallback.py\<close>)\<close>

definition nonblank :: "string \<Rightarrow> bool" where
  \<comment> \<open>\<open>line.strip()\<close> is not empty\<close>
  "nonblank l = (strip l \<noteq> [])"

fun loads_all :: "(string \<Rightarrow> json option) \<Rightarrow> string list \<Rightarrow> error + json list" where
  \<comment> \<open>\<open>[json.loads(line) for line in lines]\<close>: the first line that fails raises.\<close>
  "loads_all loads [] = Inr []"
| "loads_all loads (l # ls) =
     (case loads l of
        None \<Rightarrow> Inl JSONDecodeError
      | Some r \<Rightarrow> (case loads_all loads ls of Inl e \<Rightarrow> Inl e | Inr rs \<Rightarrow> Inr (r # rs)))"

definition load_fallback :: "config \<Rightarrow> files \<Rightarrow> error + json list" where
  "load_fallback c f =
     (case fallback_file f of
        None \<Rightarrow> Inr []
      | Some lines \<Rightarrow> loads_all (json_loads c) (filter nonblank lines))"

definition import_op :: "json \<Rightarrow> error + update_one" where
  \<comment> \<open>The operation \<open>try_import\<close> builds for one record.\<close>
  "import_op r =
     (case py_get r ''url'' of
        Inl e \<Rightarrow> Inl e
      | Inr u \<Rightarrow>
          (if truthy u then Inr (UpdateOne ''url'' u r True)
           else (case py_get r ''title'' of
                   Inl e \<Rightarrow> Inl e
                 | Inr t \<Rightarrow> Inr (UpdateOne ''title'' t r True))))"

fun import_ops :: "json list \<Rightarrow> error + update_one list" where
  "import_ops [] = Inr []"
| "import_ops (r # rs) =
     (case import_op r of
        Inl e \<Rightarrow> Inl e
      | Inr op \<Rightarrow> (case import_ops rs of Inl e \<Rightarrow> Inl e | Inr ops \<Rightarrow> Inr (op # ops)))"

function chunks :: "nat \<Rightarrow> 'a list \<Rightarrow> 'a list list" where
  \<comment> \<open>\<open>records[i:i+n]\<close> for \<open>i = 0, n, 2n, ...\<close> below \<open>len(records)\<close>\<close>
  "chunks n xs = (if n = 0 \<or> xs = [] then [] else take n xs # chunks n (drop n xs))"
  by pat_completeness auto
termination
  by (relation "measure (\<lambda>(n, xs). length xs)") auto

declare chunks.simps [simp del]

definition batches :: "int \<Rightarrow> 'a list \<Rightarrow> error + 'a list list" where
  \<comment> \<open>\<open>range(0, len(records), BATCH_SIZE)\<close>: a zero step raises, a negative step gives
      no index.\<close>
  "batches n xs =
     (if n = 0 then Inl ValueError
      else if n < 0 then Inr []
      else Inr (chunks (nat n) xs))"

fun write_batches :: "mongo \<Rightarrow> json list list \<Rightarrow> mongo \<times> error option" where
  "write_batches m [] = (m, None)"
| "write_batches m (b # bs) =
     (case import_ops b of
        Inl e \<Rightarrow> (m, Some e)
      | Inr ops \<Rightarrow>
          (case bulk_write m ops of
             Inl e \<Rightarrow> (m, Some e)
           | Inr m' \<Rightarrow> write_batches m' bs))"

definition try_import :: "config \<Rightarrow> mongo \<Rightarrow> json list \<Rightarrow> mongo \<times> error option" where
  \<comment> \<open>The count of applied operations, which is only logged, is left out.\<close>
  "try_import c m records =
     (case create_index m of
        Inl e \<Rightarrow> (m, Some e)
      | Inr m1 \<Rightarrow>
          (case batches (BATCH_SIZE c) records of
             Inl e \<Rightarrow> (m1, Some e)
           | Inr bs \<Rightarrow> write_batches m1 bs))"

definition rename_imported :: "config \<Rightarrow> files \<Rightarrow> error + files" where
  \<comment> \<open>\<open>FALLBACK_PATH.rename(FALLBACK_PATH.with_suffix(".imported.jsonl"))\<close>, called
      when the log exists\<close>
  "rename_imported c f =
     (if imported_file f \<noteq> None \<and> \<not> rename_overwrites c then Inl FileExistsError
      else Inr \<lparr> fallback_file = None, imported_file = fallback_file f \<rparr>)"

definition attempt :: "config \<Rightarrow> json list \<Rightarrow> mongo \<Rightarrow> files \<Rightarrow> mongo \<times> files \<times> bool" where
  \<comment> \<open>One \<open>try\<close> block of \<open>main\<close>: probe, import, rename; \<open>True\<close> when it returned.\<close>
  "attempt c records m f =
     (case ping m of
        (m1, False) \<Rightarrow> (m1, f, False)
      | (m1, True) \<Rightarrow>
          (case try_import c m1 records of
             (m2, Some e) \<Rightarrow> (m2, f, False)
           | (m2, None) \<Rightarrow>
               (case rename_imported c f of
                  Inl e \<Rightarrow> (m2, f, False)
                | Inr f' \<Rightarrow> (m2, f', True))))"

datatype outcome = NoRecords | ImportedPrimary | ImportedLocal | BothFailed | Crashed error

definition configured_uri :: "config \<Rightarrow> string" where
  \<comment> \<open>\<open>os.getenv("MONGO_URI", "").strip()\<close>\<close>
  "configured_uri c = strip (case MONGO_URI c of None \<Rightarrow> [] | Some u \<Rightarrow> u)"

definition import_fallback_main :: "config \<Rightarrow> world \<Rightarrow> world \<times> outcome" where
  "import_fallback_main c w =
     (case load_fallback c (disk w) of
        Inl e \<Rightarrow> (w, Crashed e)
      | Inr records \<Rightarrow>
          if records = [] then (w, NoRecords)
          else
            (let (w1, imported) =
                   (if configured_uri c \<noteq> [] then
                      (case attempt c records (primary w) (disk w) of
                         (m, f, ok) \<Rightarrow> (w\<lparr> primary := m, disk := f \<rparr>, ok))
                    else (w, False))
             in if imported then (w1, ImportedPrimary)
                else
                  (case attempt c records (local_store w1) (disk w1) of
                     (m, f, ok) \<Rightarrow>
                       (w1\<lparr> local_store := m, disk := f \<rparr>,
                        if ok then ImportedLocal else BothFailed))))"

section \<open>Example sites\<close>

text \<open>
  A site for the examples: a table of pages, each with its URL, its HTML text and what
  the parser finds in it.  \<open>requests_get\<close> succeeds on the URLs of the table only, the
  browser fetch always fails, and every URL has the network location \<open>host\<close>.
\<close>

definition blank_page :: soup where
  "blank_page =
     \<lparr> a_hrefs = [], sel_h1 = None, sel_title = None, sel_meta = None, sel_author_a = None,
       sel_byline = None, sel_time = None, sel_tags_a = [], page_text = [] \<rparr>"

definition site :: "string \<Rightarrow> int \<Rightarrow> int \<Rightarrow> string \<Rightarrow> (string \<times> string \<times> soup) list \<Rightarrow> env" where
  "site start max_records max_pages host pages =
     \<lparr> START_URL = start, MAX_RECORDS = max_records, MAX_PAGES_TO_VISIT = max_pages,
       requests_get = (\<lambda>u. map_option fst (map_of pages u)),
       fetch_with_selenium = (\<lambda>u. None),
       BeautifulSoup = (\<lambda>h. case map_of (map snd pages) h of Some sp \<Rightarrow> sp | None \<Rightarrow> blank_page),
       url_resolve = absolute_reference,
       url_netloc = (\<lambda>u. Some host) \<rparr>"

definition home_page :: soup where
  \<comment> \<open>a page whose only link is the link to the home page\<close>
  "home_page = blank_page\<lparr> a_hrefs := [''https://www.worldhistory.org/''],
                           sel_h1 := Some ''World History'' \<rparr>"

definition home_site :: env where
  \<comment> \<open>the default configuration, and the home page under both spellings of its URL\<close>
  "home_site =
     site ''https://www.worldhistory.org/'' 100 2000 ''www.worldhistory.org''
       [(''https://www.worldhistory.org/'', ''<a href=https://www.worldhistory.org/>Home</a>'', home_page),
        (''https://www.worldhistory.org'', ''<a href=https://www.worldhistory.org/>Home</a>'', home_page)]"

definition untitled_page :: soup where
  \<comment> \<open>no \<open>h1\<close>, and a \<open>title\<close> element without text: its \<open>.string\<close> is \<open>None\<close>\<close>
  "untitled_page = blank_page\<lparr> sel_title := Some None, page_text := ''text'' \<rparr>"

definition untitled_site :: env where
  "untitled_site =
     site ''http://h/article/1'' 100 2000 ''h''
       [(''http://h/article/1'', ''<title></title>text'', untitled_page)]"

definition article_page :: "string \<Rightarrow> soup" where
  "article_page t = blank_page\<lparr> sel_h1 := Some t, page_text := t \<rparr>"

definition index_page :: soup where
  "index_page = blank_page\<lparr> a_hrefs := [''http://h/article/1/'', ''http://h/article/2#top''],
                            sel_title := Some (Some ''Index'') \<rparr>"

definition broken_link_page :: soup where
  \<comment> \<open>an article page with a link on which \<open>urljoin\<close> raises\<close>
  "broken_link_page = blank_page\<lparr> a_hrefs := [''http://[x''], sel_h1 := Some ''One'' \<rparr>"

definition broken_link_site :: env where
  \<comment> \<open>an index page that links to two articles, the first with the malformed link\<close>
  "broken_link_site =
     (site ''http://h'' 100 2000 ''h''
        [(''http://h'', ''<title>Index</title>'', index_page),
         (''http://h/article/1'', ''<h1>One</h1><a href=http://[x>x</a>'', broken_link_page),
         (''http://h/article/2'', ''<h1>Two</h1>'', article_page ''Two'')])
     \<lparr> url_resolve := strict_reference \<rparr>"

definition small_site :: "int \<Rightarrow> env" where
  \<comment> \<open>an index page that links to two articles\<close>
  "small_site max_records =
     site ''http://h'' max_records 2000 ''h''
       [(''http://h'', ''<title>Index</title>'', index_page),
        (''http://h/article/1'', ''<h1>One</h1>'', article_page ''One''),
        (''http://h/article/2'', ''<h1>Two</h1>'', article_page ''Two'')]"

section \<open>What a store holds\<close>

definition url_of :: "json \<Rightarrow> json option" where
  \<comment> \<open>the \<open>url\<close> of a record, when the record has one that is not empty\<close>
  "url_of r =
     (case r of
        JObj kvs \<Rightarrow>
          (case map_of kvs ''url'' of
             Some u \<Rightarrow> (if truthy u then Some u else None)
           | None \<Rightarrow> None)
      | _ \<Rightarrow> None)"

definition doc_holds :: "doc \<Rightarrow> json \<Rightarrow> bool" where
  \<comment> \<open>the document has every field of the record, with the record's value\<close>
  "doc_holds d r =
     (case r of
        JObj kvs \<Rightarrow> list_all (\<lambda>k. map_of d k = map_of kvs k) (map fst kvs)
      | _ \<Rightarrow> False)"

definition store_contains :: "doc list \<Rightarrow> json \<Rightarrow> bool" where
  "store_contains ds r = list_ex (\<lambda>d. doc_holds d r) ds"

definition self_keyed :: "update_one \<Rightarrow> bool" where
  \<comment> \<open>an upsert whose filter value is the value that its own set fields give the filter
      field (\<open>null\<close> where they have none)\<close>
  "self_keyed op =
     (upsert op \<and>
      (case set_fields op of
         JObj kvs \<Rightarrow>
           distinct (map fst kvs) \<and>
           (case map_of kvs (filter_field op) of
              Some v \<Rightarrow> filter_value op = v
            | None \<Rightarrow> filter_value op = JNull)
       | _ \<Rightarrow> False))"

section \<open>Example records, logs and stores\<close>

definition rec_one :: json where
  "rec_one = JObj [(''url'', JStr ''http://h/article/1''), (''title'', JStr ''One'')]"

definition rec_two :: json where
  "rec_two = JObj [(''url'', JStr ''http://h/article/2''), (''title'', JStr ''Two'')]"

definition rec_uno :: json where
  \<comment> \<open>the URL of \<open>rec_one\<close> under another title\<close>
  "rec_uno = JObj [(''url'', JStr ''http://h/article/1''), (''title'', JStr ''Uno'')]"

definition rec_no_url :: json where
  \<comment> \<open>a record without \<open>url\<close>\<close>
  "rec_no_url = JObj [(''title'', JStr ''Three'')]"

definition rec_blank_url :: json where
  \<comment> \<open>the title of \<open>rec_one\<close> with an empty \<open>url\<close>\<close>
  "rec_blank_url = JObj [(''url'', JStr []), (''title'', JStr ''One'')]"

definition line_one :: string where
  \<open>line_one = ''{"url": "http://h/article/1", "title": "One"}''\<close>

definition line_two :: string where
  \<open>line_two = ''{"url": "http://h/article/2", "title": "Two"}''\<close>

definition line_uno :: string where
  \<open>line_uno = ''{"url": "http://h/article/1", "title": "Uno"}''\<close>

definition line_no_url :: string where
  \<open>line_no_url = ''{"title": "Three"}''\<close>

definition line_blank_url :: string where
  \<open>line_blank_url = ''{"url": "", "title": "One"}''\<close>

definition line_broken :: string where
  \<comment> \<open>a line cut off in the middle of a string\<close>
  \<open>line_broken = ''{"url": "http://h/artic''\<close>

definition example_loads :: "string \<Rightarrow> json option" where
  \<comment> \<open>\<open>json.loads\<close> on the lines above\<close>
  "example_loads =
     map_of [(line_one, rec_one), (line_two, rec_two), (line_uno, rec_uno),
             (line_no_url, rec_no_url), (line_blank_url, rec_blank_url)]"

definition example_dumps :: "json \<Rightarrow> string" where
  \<comment> \<open>\<open>json.dumps\<close> on the records above\<close>
  "example_dumps r =
     (if r = rec_one then line_one else if r = rec_two then line_two
      else if r = rec_uno then line_uno else if r = rec_no_url then line_no_url
      else if r = rec_blank_url then line_blank_url
      else ''null'')"

definition example_config :: config where
  "example_config =
     \<lparr> MONGO_URI = Some ''mongodb+srv://cluster.example.mongodb.net'', BATCH_SIZE = 200,
       json_loads = example_loads, json_dumps = example_dumps, rename_overwrites = True,
       csv_rows = Some [rec_one, rec_two] \<rparr>"

definition server_up :: mongo where
  "server_up = \<lparr> reachable = True, accepts_writes = True, docs = [], attempts = 0, received = [] \<rparr>"

definition server_down :: mongo where
  "server_down = \<lparr> reachable = False, accepts_writes = False, docs = [], attempts = 0, received = [] \<rparr>"

definition server_read_only :: mongo where
  \<comment> \<open>a server that answers the probe and refuses writes\<close>
  "server_read_only =
     \<lparr> reachable = True, accepts_writes = False, docs = [], attempts = 0, received = [] \<rparr>"

definition example_world :: "string list option \<Rightarrow> mongo \<Rightarrow> mongo \<Rightarrow> world" where
  \<comment> \<open>the log with the given lines, no imported file, and the two stores\<close>
  "example_world log p l =
     \<lparr> disk = \<lparr> fallback_file = log, imported_file = None \<rparr>, primary = p, local_store = l \<rparr>"

definition imported_store :: "outcome \<Rightarrow> world \<Rightarrow> mongo" where
  \<comment> \<open>the store that a run with this outcome has written to\<close>
  "imported_store out w = (if out = ImportedPrimary then primary w else local_store w)"

definition small_batches :: config where
  "small_batches = example_config\<lparr> BATCH_SIZE := 1 \<rparr>"

definition negative_batches :: config where
  "negative_batches = example_config\<lparr> BATCH_SIZE := - 1 \<rparr>"

section \<open>Facts about the string functions\<close>

lemma rstrip_no_trailing: "rstrip c s = [] \<or> last (rstrip c s) \<noteq> c"
proof (cases "dropWhile (\<lambda>x. x = c) (rev s)")
  case Nil
  then show ?thesis by (simp add: rstrip_def)
next
  case (Cons y ys)
  then have "y \<noteq> c" using hd_dropWhile[of "\<lambda>x. x = c" "rev s"] by auto
  then show ?thesis using Cons by (simp add: rstrip_def)
qed

lemma rstrip_fixed: "s = [] \<or> last s \<noteq> c \<Longrightarrow> rstrip c s = s"
  by (cases s rule: rev_cases) (auto simp: rstrip_def)

lemma rstrip_idem: "rstrip c (rstrip c s) = rstrip c s"
  using rstrip_no_trailing rstrip_fixed by blast

lemma split_first_fixed: "c \<notin> set s \<Longrightarrow> split_first c s = s"
  by (auto simp: split_first_def takeWhile_eq_all_conv)

lemma split_first_without: "c \<notin> set (split_first c s)"
  by (auto simp: split_first_def dest: set_takeWhileD)

lemma rstrip_subset: "set (rstrip c s) \<subseteq> set s"
  by (auto simp: rstrip_def dest: set_dropWhileD)

section \<open>Facts about the crawl loop\<close>

lemma enqueue_links_fields [simp]:
  "visited (enqueue_links e b h u s) = visited s"
  "articles (enqueue_links e b h u s) = articles s"
  "pages_visited (enqueue_links e b h u s) = pages_visited s"
  "scraped_rows (enqueue_links e b h u s) = scraped_rows s"
  "out_csv (enqueue_links e b h u s) = out_csv s"
  "fetched (enqueue_links e b h u s) = fetched s"
  by (simp_all add: enqueue_links_def split: sum.splits)

lemma collect_article_fields [simp]:
  "visited (collect_article e h u s) = visited s"
  "q (collect_article e h u s) = q s"
  "pages_visited (collect_article e h u s) = pages_visited s"
  "out_csv (collect_article e h u s) = out_csv s"
  "fetched (collect_article e h u s) = fetched s"
  "raised (collect_article e h u s) = raised s"
  by (simp_all add: collect_article_def Let_def split: sum.splits)

lemma flush_periodic_fields [simp]:
  "visited (flush_periodic s) = visited s"
  "q (flush_periodic s) = q s"
  "articles (flush_periodic s) = articles s"
  "pages_visited (flush_periodic s) = pages_visited s"
  "fetched (flush_periodic s) = fetched s"
  "raised (flush_periodic s) = raised s"
  "out_csv (flush_periodic s) @ scraped_rows (flush_periodic s) = out_csv s @ scraped_rows s"
  by (simp_all add: flush_periodic_def)

lemma final_flush_fields [simp]:
  "visited (final_flush s) = visited s"
  "q (final_flush s) = q s"
  "articles (final_flush s) = articles s"
  "pages_visited (final_flush s) = pages_visited s"
  "fetched (final_flush s) = fetched s"
  "raised (final_flush s) = raised s"
  "out_csv (final_flush s) = out_csv s @ scraped_rows s"
  "scraped_rows (final_flush s) = []"
  by (simp_all add: final_flush_def)

lemma crawl_loop_invariant:
  "P s \<Longrightarrow> (\<And>t. P t \<Longrightarrow> raised t = None \<Longrightarrow> loop_cond e t \<Longrightarrow> P (loop_body e b t)) \<Longrightarrow>
   P (crawl_loop e b s)"
proof (induction e b s rule: crawl_loop.induct)
  case (1 e b s)
  show ?case
  proof (cases "raised s = None \<and> loop_cond e s")
    case True
    then have r: "raised s = None" and c: "loop_cond e s" by simp_all
    have "P (loop_body e b s)" using 1(3)[OF 1(2) r c] .
    from 1(1)[OF True this 1(3)] have "P (crawl_loop e b (loop_body e b s))" .
    then show ?thesis by (subst crawl_loop.simps) (simp add: True)
  next
    case False
    then show ?thesis using 1(2) by (subst crawl_loop.simps) auto
  qed
qed




lemma loop_body_Nil: "q s = [] \<Longrightarrow> loop_body e b s = s"
  by (simp add: loop_body_def)

lemma loop_body_seen:
  "q s = u # rest \<Longrightarrow> u \<in> visited s \<Longrightarrow> loop_body e b s = s\<lparr> q := rest \<rparr>"
  by (simp add: loop_body_def Let_def)

lemma loop_body_new:
  "q s = u # rest \<Longrightarrow> u \<notin> visited s \<Longrightarrow>
   loop_body e b s =
     (case fetch e u of
        None \<Rightarrow> mark_visited u rest s
      | Some html \<Rightarrow>
          if html = [] then mark_visited u rest s
          else if raised (enqueue_links e b html u (mark_visited u rest s)) \<noteq> None
          then enqueue_links e b html u (mark_visited u rest s)
          else flush_periodic (collect_article e html u (enqueue_links e b html u (mark_visited u rest s))))"
  unfolding loop_body_def mark_visited_def Let_def
  by (cases "fetch e u") simp_all

lemma mark_visited_fields [simp]:
  "q (mark_visited u rest s) = rest"
  "visited (mark_visited u rest s) = insert u (visited s)"
  "articles (mark_visited u rest s) = articles s"
  "pages_visited (mark_visited u rest s) = pages_visited s + 1"
  "scraped_rows (mark_visited u rest s) = scraped_rows s"
  "out_csv (mark_visited u rest s) = out_csv s"
  "fetched (mark_visited u rest s) = fetched s @ [u]"
  "raised (mark_visited u rest s) = raised s"
  by (simp_all add: mark_visited_def)

lemma loop_body_fetched_visited:
  "(fetched (loop_body e b s) = fetched s \<and> visited (loop_body e b s) = visited s)
   \<or> (\<exists>u. u \<notin> visited s \<and> fetched (loop_body e b s) = fetched s @ [u]
          \<and> visited (loop_body e b s) = insert u (visited s))"
proof (cases "q s")
  case Nil
  then show ?thesis by (simp add: loop_body_Nil)
next
  case (Cons u rest)
  show ?thesis
  proof (cases "u \<in> visited s")
    case True
    then show ?thesis using Cons by (simp add: loop_body_seen)
  next
    case False
    have "fetched (loop_body e b s) = fetched s @ [u] \<and> visited (loop_body e b s) = insert u (visited s)"
      unfolding loop_body_new[OF Cons False] by (cases "fetch e u") simp_all
    with False show ?thesis by blast
  qed
qed

lemma loop_body_fetched:
  assumes "distinct (fetched s) \<and> set (fetched s) \<subseteq> visited s"
  shows "distinct (fetched (loop_body e b s)) \<and> set (fetched (loop_body e b s)) \<subseteq> visited (loop_body e b s)"
  using loop_body_fetched_visited[of e b s] assms by auto

lemma crawl_loop_fetched:
  assumes "distinct (fetched s) \<and> set (fetched s) \<subseteq> visited s"
  shows "distinct (fetched (crawl_loop e b s)) \<and> set (fetched (crawl_loop e b s)) \<subseteq> visited (crawl_loop e b s)"
  using assms
  by (rule crawl_loop_invariant[where P = "\<lambda>t. distinct (fetched t) \<and> set (fetched t) \<subseteq> visited t"])
     (rule loop_body_fetched)

lemma crawl_main_fetched_distinct: "crawl_main e p = Inr s \<Longrightarrow> distinct (fetched s)"
proof -
  assume a: "crawl_main e p = Inr s"
  then obtain b where s: "s = final_flush (crawl_loop e b (initial_state e p))"
    by (auto simp: crawl_main_def Let_def split: option.splits)
  have "distinct (fetched (initial_state e p)) \<and> set (fetched (initial_state e p)) \<subseteq> visited (initial_state e p)"
    by (simp add: initial_state_def)
  from crawl_loop_fetched[OF this, of e b] show ?thesis by (simp add: s)
qed







lemmas crawl_eval =
  crawl_main_def site_def initial_state_def crawl_loop.simps
  loop_cond_def loop_body_def Let_def fetch_def blank_page_def
  enqueue_links_def extract_links_def normalize_url_def urljoin_def
  absolute_reference_def strict_reference_def is_internal_def collect_article_def looks_like_article_def
  flush_periodic_def final_flush_def strip_def isspace_def rstrip_def split_first_def
  lower_def lower_char_def load_existing_def parse_article_def parse_title_def
  parse_excerpt_def parse_author_def parse_date_def parse_tags_def


lemma parse_article_url: "parse_article bs h u = Inr r \<Longrightarrow> url r = u"
  by (auto simp: parse_article_def Let_def split: sum.splits)

lemma collect_article_rows:
  "(scraped_rows (collect_article e h u s) = scraped_rows s
      \<and> articles (collect_article e h u s) = articles s)
   \<or> (\<exists>r. url r = u \<and> rstrip CHR ''/'' u \<notin> articles s
         \<and> scraped_rows (collect_article e h u s) = scraped_rows s @ [r]
         \<and> articles (collect_article e h u s) = insert (rstrip CHR ''/'' u) (articles s))"
proof (cases "looks_like_article u \<and> rstrip CHR ''/'' u \<notin> articles s")
  case False
  then show ?thesis by (auto simp: collect_article_def Let_def)
next
  case True
  show ?thesis
  proof (cases "parse_article (BeautifulSoup e) h u")
    case (Inl err)
    then show ?thesis using True by (simp add: collect_article_def Let_def)
  next
    case (Inr r)
    then show ?thesis using True parse_article_url[OF Inr]
      by (simp add: collect_article_def Let_def)
  qed
qed

lemma loop_body_rows:
  "(all_rows (loop_body e b s) = all_rows s \<and> articles (loop_body e b s) = articles s)
   \<or> (\<exists>r. rstrip CHR ''/'' (url r) \<notin> articles s
         \<and> all_rows (loop_body e b s) = all_rows s @ [r]
         \<and> articles (loop_body e b s) = insert (rstrip CHR ''/'' (url r)) (articles s))"
proof (cases "q s")
  case Nil
  then show ?thesis by (simp add: loop_body_Nil)
next
  case (Cons u rest)
  show ?thesis
  proof (cases "u \<in> visited s")
    case True
    then show ?thesis using Cons by (simp add: loop_body_seen all_rows_def)
  next
    case False
    show ?thesis
    proof (cases "fetch e u")
      case None
      then show ?thesis by (simp add: loop_body_new[OF Cons False] all_rows_def)
    next
      case (Some html)
      show ?thesis
      proof (cases "html = []")
        case True
        then show ?thesis using Some by (simp add: loop_body_new[OF Cons False] all_rows_def)
      next
        case False
        let ?t = "enqueue_links e b html u (mark_visited u rest s)"
        show ?thesis
        proof (cases "raised ?t = None")
          case True
          have lb: "loop_body e b s = flush_periodic (collect_article e html u ?t)"
            using Some False True by (simp add: loop_body_new[OF Cons \<open>u \<notin> visited s\<close>])
          have rows: "all_rows (loop_body e b s) = out_csv s @ scraped_rows (collect_article e html u ?t)"
            unfolding lb all_rows_def by simp
          have arts: "articles (loop_body e b s) = articles (collect_article e html u ?t)"
            unfolding lb by simp
          from collect_article_rows[of e html u ?t]
          show ?thesis unfolding rows arts by (auto simp: all_rows_def)
        next
          case stopped: False
          have "loop_body e b s = ?t"
            using Some False stopped by (simp add: loop_body_new[OF Cons \<open>u \<notin> visited s\<close>])
          then show ?thesis by (simp add: all_rows_def)
        qed
      qed
    qed
  qed
qed

lemma crawl_loop_rows:
  assumes "A \<subseteq> articles s" "\<forall>r \<in> set (all_rows s). rstrip CHR ''/'' (url r) \<notin> A"
  shows "A \<subseteq> articles (crawl_loop e b s)
       \<and> (\<forall>r \<in> set (all_rows (crawl_loop e b s)). rstrip CHR ''/'' (url r) \<notin> A)"
proof (rule crawl_loop_invariant[where P = "\<lambda>t. A \<subseteq> articles t
       \<and> (\<forall>r \<in> set (all_rows t). rstrip CHR ''/'' (url r) \<notin> A)"])
  show "A \<subseteq> articles s \<and> (\<forall>r \<in> set (all_rows s). rstrip CHR ''/'' (url r) \<notin> A)"
    using assms by simp
next
  fix t
  assume inv: "A \<subseteq> articles t \<and> (\<forall>r \<in> set (all_rows t). rstrip CHR ''/'' (url r) \<notin> A)"
  from loop_body_rows[of e b t] inv
  show "A \<subseteq> articles (loop_body e b t)
       \<and> (\<forall>r \<in> set (all_rows (loop_body e b t)). rstrip CHR ''/'' (url r) \<notin> A)"
    by auto
qed

text \<open>
  A link on which \<open>urljoin\<close> raises ends the run: the exception leaves the loop while
  its condition still holds, with a URL in the queue, and \<open>main\<close> returns nothing.
\<close>

lemma malformed_link_aborts_crawl:
  "crawl_main broken_link_site NoFile = Inl ValueError
   \<and> (\<lambda>s. (raised s, fetched s, q s, loop_cond broken_link_site s))
        (crawl_loop broken_link_site ''h'' (initial_state broken_link_site NoFile))
     = (Some ValueError, [''http://h'', ''http://h/article/1''], [''http://h/article/2''], True)"
  by (simp add: crawl_eval broken_link_site_def broken_link_page_def index_page_def
        article_page_def)

section \<open>The crawl: visits, bounds, resumption\<close>

text \<open>
  C1: each canonical URL (trailing slash stripped, fragment removed) is fetched at most
  once in a crawl run.  The loop never hands the same string to the fetch tier twice
  (\<open>crawl_main_fetched_distinct\<close>), but the start URL is enqueued as it is configured
  while every discovered link is enqueued with its trailing slash stripped.  With the
  default start URL and a home page that links to itself, the run fetches the home page
  under both spellings, which have one canonical form.
\<close>

theorem home_page_fetched_twice:
  "map_sum id fetched (crawl_main home_site NoFile)
     = Inr [''https://www.worldhistory.org/'', ''https://www.worldhistory.org'']
   \<and> rstrip CHR ''/'' (split_first CHR ''#'' ''https://www.worldhistory.org/'')
     = rstrip CHR ''/'' (split_first CHR ''#'' ''https://www.worldhistory.org'')"
  by (simp add: crawl_eval home_site_def home_page_def)




text \<open>
  C7, as stated: the URLs of the output file seed both the visited set and the article
  set, so that a resumed crawl fetches none of them again.  The visited set starts
  empty: the article on disk is fetched again, and only its collection is skipped.
\<close>

theorem prior_urls_fetched_again:
  "visited (initial_state (small_site 100) (UrlColumn [''http://h/article/1/''])) = {}
   \<and> map_sum id (\<lambda>s. (fetched s, map url (out_csv s)))
        (crawl_main (small_site 100) (UrlColumn [''http://h/article/1/'']))
     = Inr ([''http://h'', ''http://h/article/1'', ''http://h/article/2''], [''http://h/article/2''])"
  by (simp add: crawl_eval small_site_def index_page_def article_page_def)

text \<open>
  C7, amended: the URLs of the output file, each with its trailing slashes stripped,
  seed the article set only; the visited set starts empty.  They stay in the article
  set, and no row that the run writes has a URL that, stripped, is one of them.
\<close>

theorem resume_seeds_article_set:
  assumes "crawl_main e p = Inr s"
  shows "visited (initial_state e p) = {}
       \<and> articles (initial_state e p) = load_existing p
       \<and> (\<forall>us. p = UrlColumn us \<longrightarrow> load_existing p = rstrip CHR ''/'' ` set us)
       \<and> load_existing p \<subseteq> articles s
       \<and> (\<forall>r \<in> set (out_csv s). rstrip CHR ''/'' (url r) \<notin> load_existing p)"
proof -
  from assms obtain b where s: "s = final_flush (crawl_loop e b (initial_state e p))"
    by (auto simp: crawl_main_def Let_def split: option.splits)
  let ?s0 = "initial_state e p"
  have i: "load_existing p \<subseteq> articles ?s0"
    "\<forall>r \<in> set (all_rows ?s0). rstrip CHR ''/'' (url r) \<notin> load_existing p"
    by (simp_all add: initial_state_def all_rows_def)
  from crawl_loop_rows[OF i, of e b]
  have "load_existing p \<subseteq> articles s"
    and "\<forall>r \<in> set (out_csv s). rstrip CHR ''/'' (url r) \<notin> load_existing p"
    unfolding s by (simp_all add: all_rows_def)
  moreover have "\<forall>us. p = UrlColumn us \<longrightarrow> load_existing p = rstrip CHR ''/'' ` set us"
    by (simp add: load_existing_def)
  ultimately show ?thesis by (simp add: initial_state_def)
qed

theorem resume_seeds_article_set_witness:
  "map_sum id (\<lambda>s. map url (out_csv s)) (crawl_main (small_site 100) (UrlColumn [''http://h/article/1/'']))
     = Inr [''http://h/article/2'']
   \<and> load_existing (UrlColumn [''http://h/article/1/'']) = {''http://h/article/1''}
   \<and> ''http://h/article/1''
       \<notin> (\<lambda>r. rstrip CHR ''/'' (url r)) ` set (out_csv (final_flush (crawl_loop (small_site 100) ''h''
            (initial_state (small_site 100) (UrlColumn [''http://h/article/1/''])))))"
proof -
  let ?p = "UrlColumn [''http://h/article/1/'']"
  let ?s = "final_flush (crawl_loop (small_site 100) ''h'' (initial_state (small_site 100) ?p))"
  have "raised (crawl_loop (small_site 100) ''h'' (initial_state (small_site 100) ?p)) = None"
    by (simp add: crawl_eval small_site_def index_page_def article_page_def)
  then have h: "crawl_main (small_site 100) ?p = Inr ?s"
    by (simp add: crawl_main_def small_site_def site_def)
  have l: "load_existing ?p = {''http://h/article/1''}"
    by (simp add: load_existing_def rstrip_def)
  have ev: "map_sum id (\<lambda>s. map url (out_csv s)) (crawl_main (small_site 100) ?p)
     = Inr [''http://h/article/2'']"
    by (simp add: crawl_eval small_site_def index_page_def article_page_def)
  from resume_seeds_article_set[OF h]
  have "\<forall>r \<in> set (out_csv ?s). rstrip CHR ''/'' (url r) \<notin> load_existing ?p" by blast
  then have "''http://h/article/1'' \<notin> (\<lambda>r. rstrip CHR ''/'' (url r)) ` set (out_csv ?s)"
    unfolding l by (auto simp only: image_iff singleton_iff)
  then show ?thesis using ev l by simp
qed

section \<open>Extraction\<close>

lemma parse_article_defaults:
  assumes "sel_h1 (bs h) \<noteq> None \<or> sel_title (bs h) \<noteq> Some None"
  shows "\<exists>r. parse_article bs h u = Inr r \<and> url r = u \<and> category r = ''History''
     \<and> (sel_h1 (bs h) = None \<and> sel_title (bs h) = None \<longrightarrow> title r = [])
     \<and> (sel_time (bs h) = None \<longrightarrow> date r = [])
     \<and> (sel_author_a (bs h) = None \<and> sel_byline (bs h) = None \<longrightarrow> author r = [])
     \<and> (sel_meta (bs h) = None \<longrightarrow> excerpt r = [])
     \<and> (sel_tags_a (bs h) = [] \<longrightarrow> tags r = [])"
  using assms
  by (auto simp: parse_article_def parse_title_def parse_date_def parse_author_def
        parse_excerpt_def parse_tags_def Let_def split: option.splits)

text \<open>
  C6: extraction never fails outright, and a page on which no selector matches an optional
  field still yields a record that is appended to the output.  That holds for a page with
  an \<open>h1\<close>, or without a \<open>title\<close>, or with a \<open>title\<close> that has a string
  (\<open>parse_article_defaults\<close>).  On an article page with no \<open>h1\<close> and a \<open>title\<close>
  element without text, \<open>soup.title.string\<close> is \<open>None\<close>, \<open>parse_article\<close> raises,
  and the loop drops the page: nothing is collected.
\<close>

theorem untitled_article_dropped:
  "parse_article (BeautifulSoup untitled_site) ''<title></title>text'' ''http://h/article/1''
     = Inl AttributeError
   \<and> map_sum id (\<lambda>s. (fetched s, out_csv s, scraped_rows s, articles s))
        (crawl_main untitled_site NoFile)
     = Inr ([''http://h/article/1''], [], [], {})"
  by (simp add: crawl_eval untitled_site_def untitled_page_def)

section \<open>URL canonicalisation\<close>

text \<open>
  C10, as stated: normalising twice equals normalising once, the normalised form holding
  no fragment.  A reference that is only a fragment makes \<open>urljoin\<close> return the base
  as it is, fragment included; normalising that result again cuts the fragment off.
  Beside that, \<open>urljoin\<close> does not return every normalised form as it is: a form that
  ends in an empty query loses its \<open>?\<close> the second time, and an empty form is not
  normalised at all.
\<close>

theorem normalize_url_keeps_base_fragment:
  "normalize_url absolute_reference ''#x'' ''http://a/b#c'' = Inr (Some ''http://a/b#c'')
   \<and> CHR ''#'' \<in> set ''http://a/b#c''
   \<and> normalize_url absolute_reference ''http://a/b#c'' ''http://a/b#c'' = Inr (Some ''http://a/b'')
   \<and> normalize_url urljoin_table ''b?/'' ''http://a/'' = Inr (Some ''http://a/b?'')
   \<and> normalize_url urljoin_table ''http://a/b?'' ''http://a/'' = Inr (Some ''http://a/b'')
   \<and> normalize_url urljoin_table ''/'' ''x'' = Inr (Some [])
   \<and> normalize_url urljoin_table [] ''x'' = Inr None"
  by (simp add: normalize_url_def urljoin_def split_first_def rstrip_def absolute_reference_def
        urljoin_table_def)

text \<open>
  C10, amended: for an \<open>href\<close> that has something before its fragment, the normalised
  form holds no fragment and does not end in a slash, the resolution step of \<open>urljoin\<close>
  giving no fragment to a reference that has none; and normalising that form again
  returns it unchanged whenever it is not empty and \<open>urljoin\<close> returns it as it is.
\<close>

theorem normalize_url_stable:
  assumes "normalize_url resolve href base = Inr (Some r)"
    and "split_first CHR ''#'' href \<noteq> []"
    and "\<forall>ref t. ref \<noteq> [] \<and> CHR ''#'' \<notin> set ref \<and> resolve base ref = Some t
            \<longrightarrow> CHR ''#'' \<notin> set t"
  shows "CHR ''#'' \<notin> set r
       \<and> (r = [] \<or> last r \<noteq> CHR ''/'')
       \<and> (r \<noteq> [] \<and> urljoin resolve base r = Some r
            \<longrightarrow> normalize_url resolve r base = Inr (Some r))"
proof -
  let ?ref = "split_first CHR ''#'' href"
  from assms(1) obtain t where u: "urljoin resolve base ?ref = Some t"
    and r: "r = rstrip CHR ''/'' t"
    by (auto simp: normalize_url_def split: if_splits option.splits)
  have cut: "CHR ''#'' \<notin> set ?ref" by (rule split_first_without)
  have "CHR ''#'' \<notin> set t"
  proof (cases "base = []")
    case True
    with u have "t = ?ref" by (simp add: urljoin_def)
    with cut show ?thesis by simp
  next
    case False
    with u assms(2) have "resolve base ?ref = Some t" by (simp add: urljoin_def)
    with assms(2,3) cut show ?thesis by blast
  qed
  then have f: "CHR ''#'' \<notin> set r" using rstrip_subset[of "CHR ''/''" t] unfolding r by blast
  have a: "r = [] \<or> last r \<noteq> CHR ''/''"
    unfolding r by (rule rstrip_no_trailing)
  have b: "normalize_url resolve r base = Inr (Some r)"
    if "r \<noteq> []" "urljoin resolve base r = Some r"
    using that a f by (simp add: normalize_url_def split_first_fixed rstrip_fixed)
  show ?thesis using f a b by blast
qed

theorem normalize_url_stable_witness:
  "normalize_url absolute_reference ''http://a/b/#x'' ''http://a/'' = Inr (Some ''http://a/b'')
   \<and> split_first CHR ''#'' ''http://a/b/#x'' = ''http://a/b/''
   \<and> CHR ''#'' \<notin> set ''http://a/b''
   \<and> normalize_url absolute_reference ''http://a/b'' ''http://a/'' = Inr (Some ''http://a/b'')"
proof -
  have h: "normalize_url absolute_reference ''http://a/b/#x'' ''http://a/'' = Inr (Some ''http://a/b'')"
    by (simp add: normalize_url_def urljoin_def split_first_def rstrip_def absolute_reference_def)
  have c: "split_first CHR ''#'' ''http://a/b/#x'' = ''http://a/b/''"
    by (simp add: split_first_def)
  then have n: "split_first CHR ''#'' ''http://a/b/#x'' \<noteq> []" by simp
  have l: "\<forall>ref t. ref \<noteq> [] \<and> CHR ''#'' \<notin> set ref \<and> absolute_reference ''http://a/'' ref = Some t
            \<longrightarrow> CHR ''#'' \<notin> set t"
    by (simp add: absolute_reference_def)
  have u: "urljoin absolute_reference ''http://a/'' ''http://a/b'' = Some ''http://a/b''"
    by (simp add: urljoin_def absolute_reference_def)
  from normalize_url_stable[OF h n l] u
  have "CHR ''#'' \<notin> set ''http://a/b''"
    and "normalize_url absolute_reference ''http://a/b'' ''http://a/'' = Inr (Some ''http://a/b'')"
    by simp_all
  with h c show ?thesis by (simp only: simp_thms)
qed

section \<open>Facts about the stores\<close>

lemmas store_eval =
  store_to_db_main_def import_fallback_main_def load_rows_def save_fallback_def
  upsert_op_def ping_def bulk_write_def create_index_def load_fallback_def nonblank_def
  import_op_def batches_def chunks.simps try_import_def rename_imported_def attempt_def
  configured_uri_def apply_set_def doc_matches_def example_world_def example_config_def
  example_loads_def example_dumps_def server_up_def server_down_def server_read_only_def
  rec_one_def rec_two_def rec_uno_def rec_no_url_def rec_blank_url_def
  line_one_def line_two_def line_uno_def line_no_url_def line_blank_url_def line_broken_def
  strip_def isspace_def Let_def store_contains_def doc_holds_def url_of_def
  small_batches_def negative_batches_def imported_store_def

lemma loads_all_fails:
  "l \<in> set ls \<Longrightarrow> loads l = None \<Longrightarrow> loads_all loads ls = Inl JSONDecodeError"
proof (induction ls)
  case Nil
  then show ?case by simp
next
  case (Cons a ls)
  show ?case
  proof (cases "loads a")
    case None
    then show ?thesis by simp
  next
    case (Some r)
    with Cons.prems have "l \<in> set ls" by auto
    from Cons.IH[OF this Cons.prems(2)] Some show ?thesis by simp
  qed
qed

lemma bulk_write_attempts:
  "bulk_write m ops = Inr m' \<Longrightarrow> attempts m' = attempts m"
  by (auto simp: bulk_write_def split: if_splits)

lemma upsert_to_mongo_attempts:
  "attempts (fst (upsert_to_mongo rows m)) = attempts m"
proof (induction rows arbitrary: m)
  case Nil
  then show ?case by simp
next
  case (Cons r rows)
  then show ?case
    by (auto simp: bulk_write_attempts split: sum.splits)
qed

lemma write_batches_attempts:
  "attempts (fst (write_batches m bs)) = attempts m"
proof (induction bs arbitrary: m)
  case Nil
  then show ?case by simp
next
  case (Cons b bs)
  then show ?case
    by (auto simp: bulk_write_attempts split: sum.splits)
qed

lemma try_import_attempts:
  "attempts (fst (try_import c m records)) = attempts m"
  by (auto simp: try_import_def create_index_def write_batches_attempts split: sum.splits)

lemma attempt_attempts:
  "attempts (fst (attempt c records m f)) = attempts m + 1"
proof -
  have "attempts (fst (try_import c (m\<lparr>attempts := attempts m + 1\<rparr>) records)) = attempts m + 1"
    by (simp add: try_import_attempts)
  then show ?thesis
    by (auto simp: attempt_def ping_def split: prod.splits option.splits sum.splits bool.splits)
qed

lemma attempt_cases:
  obtains m' f' ok where "attempt c records m f = (m', f', ok)" "attempts m' = attempts m + 1"
proof -
  obtain m' f' ok where h: "attempt c records m f = (m', f', ok)"
    by (cases "attempt c records m f") auto
  with attempt_attempts[of c records m f] have "attempts m' = attempts m + 1" by simp
  with h that show thesis by blast
qed

lemma map_of_apply_set:
  "map_of (apply_set d (JObj kvs)) k = (case map_of kvs k of Some v \<Rightarrow> Some v | None \<Rightarrow> map_of d k)"
  unfolding apply_set_def
  by (induction kvs) (auto simp: update_conv' split: option.splits)

lemma apply_set_fixed:
  "\<forall>(k, v) \<in> set kvs. map_of d k = Some v \<Longrightarrow> apply_set d (JObj kvs) = d"
  unfolding apply_set_def
  by (induction kvs) (auto simp: update_triv)

lemma apply_set_idem:
  assumes "distinct (map fst kvs)"
  shows "apply_set (apply_set d (JObj kvs)) (JObj kvs) = apply_set d (JObj kvs)"
proof (rule apply_set_fixed)
  show "\<forall>(k, v) \<in> set kvs. map_of (apply_set d (JObj kvs)) k = Some v"
    using assms by (auto simp: map_of_apply_set)
qed

lemma self_keyed_matches:
  assumes "self_keyed op" and "doc_matches (filter_field op) (filter_value op) d"
  shows "doc_matches (filter_field op) (filter_value op) (apply_set d (set_fields op))"
  using assms unfolding self_keyed_def doc_matches_def
  by (cases "set_fields op")
     (simp_all add: map_of_apply_set del: map_of_eq_Some_iff Some_eq_map_of_iff
        split: option.splits)

lemma self_keyed_inserted:
  "self_keyed op \<Longrightarrow>
   doc_matches (filter_field op) (filter_value op)
     (apply_set [(filter_field op, filter_value op)] (set_fields op))"
  by (rule self_keyed_matches) (simp_all add: doc_matches_def)

lemma self_keyed_idem:
  "self_keyed op \<Longrightarrow>
   apply_set (apply_set d (set_fields op)) (set_fields op) = apply_set d (set_fields op)"
  by (auto simp: self_keyed_def apply_set_idem split: json.splits)

lemma update_docs_replay:
  assumes "self_keyed op"
  shows "update_docs op (update_docs op ds) = update_docs op ds"
proof (induction ds)
  case Nil
  have "upsert op" using assms by (simp add: self_keyed_def)
  then show ?case
    using self_keyed_inserted[OF assms] self_keyed_idem[OF assms] by simp
next
  case (Cons d ds)
  then show ?case
    using self_keyed_matches[OF assms] self_keyed_idem[OF assms] by simp
qed

lemma import_op_key:
  "import_op r = Inr op \<Longrightarrow>
   upsert op \<and> set_fields op = r \<and>
   (case url_of r of
      Some u \<Rightarrow> filter_field op = ''url'' \<and> filter_value op = u
    | None \<Rightarrow> filter_field op = ''title'' \<and> py_get r ''title'' = Inr (filter_value op))"
  by (cases r) (auto simp: import_op_def url_of_def split: option.splits if_splits)

lemma import_op_self_keyed:
  "import_op (JObj kvs) = Inr op \<Longrightarrow> distinct (map fst kvs) \<Longrightarrow> self_keyed op"
  by (auto simp: import_op_def self_keyed_def split: option.splits if_splits)

lemma upsert_op_key:
  "upsert_op r = Inr op \<Longrightarrow>
   upsert op \<and> set_fields op = r \<and> filter_field op = ''url''
   \<and> py_get r ''url'' = Inr (filter_value op)"
  by (cases r) (auto simp: upsert_op_def)

lemma upsert_op_self_keyed:
  "upsert_op (JObj kvs) = Inr op \<Longrightarrow> distinct (map fst kvs) \<Longrightarrow> self_keyed op"
  by (auto simp: upsert_op_def self_keyed_def split: option.splits)

lemma chunks_concat: "0 < n \<Longrightarrow> concat (chunks n xs) = xs"
proof (induction n xs rule: chunks.induct)
  case (1 n xs)
  show ?case
  proof (cases "xs = []")
    case True
    then show ?thesis by (simp add: chunks.simps)
  next
    case False
    with 1 have "concat (chunks n (drop n xs)) = drop n xs" by simp
    with False 1(2) show ?thesis by (subst chunks.simps) simp
  qed
qed

lemma chunks_bounded: "b \<in> set (chunks n xs) \<Longrightarrow> b \<noteq> [] \<and> length b \<le> n"
proof (induction n xs rule: chunks.induct)
  case (1 n xs)
  show ?case
  proof (cases "n = 0 \<or> xs = []")
    case True
    with 1(2) show ?thesis by (simp add: chunks.simps)
  next
    case False
    have "chunks n xs = take n xs # chunks n (drop n xs)"
      using False by (subst chunks.simps) simp
    with 1(2) have "b = take n xs \<or> b \<in> set (chunks n (drop n xs))" by simp
    then show ?thesis
    proof
      assume "b = take n xs"
      with False show ?thesis by simp
    next
      assume "b \<in> set (chunks n (drop n xs))"
      with 1(1) False show ?thesis by simp
    qed
  qed
qed

lemma write_batches_ok:
  "write_batches m bs = (m', None) \<Longrightarrow>
   \<exists>opss. list_all2 (\<lambda>b ops. import_ops b = Inr ops) bs opss
     \<and> received m' = received m @ opss
     \<and> docs m' = fold update_docs (concat opss) (docs m)"
proof (induction bs arbitrary: m)
  case Nil
  then show ?case by simp
next
  case (Cons b bs)
  from Cons.prems obtain ops m1 where o: "import_ops b = Inr ops"
    and w: "bulk_write m ops = Inr m1" and r: "write_batches m1 bs = (m', None)"
    by (auto split: sum.splits)
  from w have m1: "received m1 = received m @ [ops]" "docs m1 = fold update_docs ops (docs m)"
    by (auto simp: bulk_write_def split: if_splits)
  from Cons.IH[OF r] obtain opss where
    i: "list_all2 (\<lambda>b ops. import_ops b = Inr ops) bs opss"
      "received m' = received m1 @ opss"
      "docs m' = fold update_docs (concat opss) (docs m1)"
    by blast
  with o m1 show ?case by (intro exI[of _ "ops # opss"]) simp
qed

lemma import_ops_append:
  "import_ops xs = Inr a \<Longrightarrow> import_ops ys = Inr b \<Longrightarrow> import_ops (xs @ ys) = Inr (a @ b)"
  by (induction xs arbitrary: a) (auto split: sum.splits)

lemma import_ops_concat:
  "list_all2 (\<lambda>b ops. import_ops b = Inr ops) bs opss \<Longrightarrow>
   import_ops (concat bs) = Inr (concat opss)"
  by (induction rule: list_all2_induct) (simp_all add: import_ops_append)

lemma try_import_ok:
  assumes "try_import c m records = (m', None)" and "0 < BATCH_SIZE c"
  shows "\<exists>opss. list_all2 (\<lambda>b ops. import_ops b = Inr ops) (chunks (nat (BATCH_SIZE c)) records) opss
     \<and> received m' = received m @ opss
     \<and> docs m' = fold update_docs (concat opss) (docs m)
     \<and> import_ops records = Inr (concat opss)"
proof -
  from assms have w: "write_batches m (chunks (nat (BATCH_SIZE c)) records) = (m', None)"
    by (auto simp: try_import_def create_index_def batches_def split: if_splits sum.splits)
  from write_batches_ok[OF w] obtain opss where
    i: "list_all2 (\<lambda>b ops. import_ops b = Inr ops) (chunks (nat (BATCH_SIZE c)) records) opss"
      "received m' = received m @ opss"
      "docs m' = fold update_docs (concat opss) (docs m)"
    by blast
  from assms(2) have "concat (chunks (nat (BATCH_SIZE c)) records) = records"
    by (simp add: chunks_concat)
  with import_ops_concat[OF i(1)] have "import_ops records = Inr (concat opss)" by simp
  with i show ?thesis by blast
qed

lemma doc_holds_apply_set: "doc_holds (apply_set d (JObj kvs)) (JObj kvs)"
  by (auto simp: doc_holds_def list_all_iff map_of_apply_set
        dest: weak_map_of_SomeI split: option.splits)

lemma url_of_SomeD:
  "url_of r = Some u \<Longrightarrow> \<exists>kvs. r = JObj kvs \<and> map_of kvs ''url'' = Some u \<and> truthy u"
  by (auto simp: url_of_def split: json.splits option.splits if_splits)

lemma import_op_url: "url_of r = Some u \<Longrightarrow> import_op r = Inr (UpdateOne ''url'' u r True)"
  by (auto dest!: url_of_SomeD simp: import_op_def)

lemma update_docs_establish:
  assumes "url_of r = Some u"
  shows "\<exists>d \<in> set (update_docs (UpdateOne ''url'' u r True) ds).
           map_of d ''url'' = Some u \<and> doc_holds d r"
proof -
  from url_of_SomeD[OF assms] obtain kvs where r: "r = JObj kvs"
    and m: "map_of kvs ''url'' = Some u" by blast
  have a: "map_of (apply_set d r) ''url'' = Some u \<and> doc_holds (apply_set d r) r" for d
    by (simp add: r map_of_apply_set m doc_holds_apply_set)
  show ?thesis by (induction ds) (use a in auto)
qed

lemma update_docs_keeps:
  "d \<in> set ds \<Longrightarrow> \<not> doc_matches (filter_field op) (filter_value op) d \<Longrightarrow>
   d \<in> set (update_docs op ds)"
  by (induction ds) auto

lemma update_docs_preserve:
  assumes "\<exists>d \<in> set ds. map_of d ''url'' = Some u \<and> doc_holds d r" and "u' \<noteq> u"
  shows "\<exists>d \<in> set (update_docs (UpdateOne ''url'' u' r' True) ds).
           map_of d ''url'' = Some u \<and> doc_holds d r"
proof -
  from assms(1) obtain d where d: "d \<in> set ds" "map_of d ''url'' = Some u" "doc_holds d r"
    by blast
  from d(2) assms(2) have "\<not> doc_matches ''url'' u' d" by (simp add: doc_matches_def)
  with update_docs_keeps[OF d(1), of "UpdateOne ''url'' u' r' True"] d show ?thesis by auto
qed

lemma fold_preserve:
  "\<exists>d \<in> set ds. map_of d ''url'' = Some u \<and> doc_holds d r \<Longrightarrow>
   import_ops rest = Inr ops \<Longrightarrow>
   \<forall>r' \<in> set rest. url_of r' \<noteq> None \<and> url_of r' \<noteq> Some u \<Longrightarrow>
   \<exists>d \<in> set (fold update_docs ops ds). map_of d ''url'' = Some u \<and> doc_holds d r"
proof (induction rest arbitrary: ds ops)
  case Nil
  then show ?case by simp
next
  case (Cons r' rest)
  from Cons.prems(3) obtain u' where u': "url_of r' = Some u'" "u' \<noteq> u" by auto
  from Cons.prems(2) import_op_url[OF u'(1)] obtain ops' where
    ops: "ops = UpdateOne ''url'' u' r' True # ops'" "import_ops rest = Inr ops'"
    by (auto split: sum.splits)
  from update_docs_preserve[OF Cons.prems(1) u'(2)]
  have "\<exists>d\<in>set (update_docs (UpdateOne ''url'' u' r' True) ds).
          map_of d ''url'' = Some u \<and> doc_holds d r" .
  from Cons.IH[OF this ops(2)] Cons.prems(3) show ?case by (simp add: ops(1))
qed

lemma fold_contains:
  "r \<in> set records \<Longrightarrow> \<forall>r' \<in> set records. url_of r' \<noteq> None \<Longrightarrow>
   distinct (map url_of records) \<Longrightarrow> import_ops records = Inr ops \<Longrightarrow>
   store_contains (fold update_docs ops ds) r"
proof (induction records arbitrary: ds ops)
  case Nil
  then show ?case by simp
next
  case (Cons r0 rest)
  obtain u0 where u0: "url_of r0 = Some u0" using Cons.prems(2) by auto
  from Cons.prems(4) import_op_url[OF u0] obtain ops' where
    ops: "ops = UpdateOne ''url'' u0 r0 True # ops'" "import_ops rest = Inr ops'"
    by (auto split: sum.splits)
  show ?case
  proof (cases "r = r0")
    case True
    from update_docs_establish[OF u0]
    have e: "\<exists>d\<in>set (update_docs (UpdateOne ''url'' u0 r0 True) ds).
               map_of d ''url'' = Some u0 \<and> doc_holds d r0" .
    have "\<forall>r' \<in> set rest. url_of r' \<noteq> None \<and> url_of r' \<noteq> Some u0"
      using Cons.prems(2,3) u0 by (auto simp: image_iff)
    from fold_preserve[OF e ops(2) this] show ?thesis
      using True by (auto simp: ops(1) store_contains_def list_ex_iff)
  next
    case False
    with Cons.prems(1) have "r \<in> set rest" by simp
    moreover from Cons.prems(2) have "\<forall>r' \<in> set rest. url_of r' \<noteq> None" by simp
    moreover from Cons.prems(3) have "distinct (map url_of rest)" by simp
    ultimately have "store_contains (fold update_docs ops' (update_docs (UpdateOne ''url'' u0 r0 True) ds)) r"
      using ops(2) by (rule Cons.IH)
    then show ?thesis by (simp add: ops(1))
  qed
qed

lemma attempt_failed: "attempt c records m f = (m', f', False) \<Longrightarrow> f' = f"
  by (auto simp: attempt_def ping_def split: prod.splits bool.splits option.splits sum.splits)

lemma attempt_ok:
  "attempt c records m f = (m', f', True) \<Longrightarrow>
   f' = \<lparr> fallback_file = None, imported_file = fallback_file f \<rparr>
   \<and> try_import c (m\<lparr> attempts := attempts m + 1 \<rparr>) records = (m', None)"
  by (auto simp: attempt_def ping_def rename_imported_def
        split: prod.splits bool.splits option.splits sum.splits if_splits)

lemma import_success:
  assumes "import_fallback_main c w = (w', out)"
    and "out = ImportedPrimary \<or> out = ImportedLocal"
    and "load_fallback c (disk w) = Inr records"
  shows "attempt c records (imported_store out w) (disk w)
           = (imported_store out w', disk w', True)"
proof -
  obtain m1 f1 ok1 where a1: "attempt c records (primary w) (disk w) = (m1, f1, ok1)"
    by (cases "attempt c records (primary w) (disk w)") auto
  obtain m2 f2 ok2 where a2: "attempt c records (local_store w) (disk w) = (m2, f2, ok2)"
    by (cases "attempt c records (local_store w) (disk w)") auto
  have f1: "\<not> ok1 \<Longrightarrow> f1 = disk w" using attempt_failed[of c records "primary w" "disk w" m1 f1] a1 by simp
  from assms a1 a2 f1 show ?thesis
    by (auto simp: import_fallback_main_def imported_store_def Let_def
          split: if_splits)
qed


lemma import_ops_length: "import_ops b = Inr ops \<Longrightarrow> length ops = length b"
  by (induction b arbitrary: ops) (auto split: sum.splits)

lemma list_all2_setD:
  "list_all2 P xs ys \<Longrightarrow> y \<in> set ys \<Longrightarrow> \<exists>x \<in> set xs. P x y"
  by (induction rule: list_all2_induct) auto

lemma upsert_to_mongo_ok:
  "upsert_to_mongo rows n = (n', None) \<Longrightarrow>
   \<exists>ops. list_all2 (\<lambda>r op. upsert_op r = Inr op) rows ops
     \<and> received n' = received n @ map (\<lambda>op. [op]) ops
     \<and> docs n' = fold update_docs ops (docs n)"
proof (induction rows arbitrary: n)
  case Nil
  then show ?case by simp
next
  case (Cons r rows)
  from Cons.prems obtain op n1 where o: "upsert_op r = Inr op"
    and w: "bulk_write n [op] = Inr n1" and u: "upsert_to_mongo rows n1 = (n', None)"
    by (auto split: sum.splits)
  from w have n1: "received n1 = received n @ [[op]]" "docs n1 = update_docs op (docs n)"
    by (auto simp: bulk_write_def split: if_splits)
  from Cons.IH[OF u] obtain ops where
    i: "list_all2 (\<lambda>r op. upsert_op r = Inr op) rows ops"
      "received n' = received n1 @ map (\<lambda>op. [op]) ops"
      "docs n' = fold update_docs ops (docs n1)"
    by blast
  with o n1 show ?case by (intro exI[of _ "op # ops"]) simp
qed

lemma attempt_unreachable:
  "\<not> reachable m \<or> \<not> accepts_writes m \<Longrightarrow>
   attempt c records m f = (m\<lparr> attempts := attempts m + 1 \<rparr>, f, False)"
  by (cases "reachable m") (auto simp: attempt_def ping_def try_import_def create_index_def)

lemma upsert_to_mongo_refused:
  "\<not> accepts_writes m \<Longrightarrow> rows \<noteq> [] \<Longrightarrow> snd (upsert_to_mongo rows m) \<noteq> None"
  by (cases rows) (auto simp: bulk_write_def split: sum.splits)

lemma import_fallback_main_tiers:
  assumes "load_fallback c (disk w) = Inr records" and "records \<noteq> []"
    and "configured_uri c \<noteq> []"
    and "attempt c records (primary w) (disk w) = (m1, f1, ok1)"
    and "attempt c records (local_store w) (disk w) = (m2, f2, ok2)"
  shows "import_fallback_main c w =
     (if ok1 then (w\<lparr> primary := m1, disk := f1 \<rparr>, ImportedPrimary)
      else (w\<lparr> primary := m1, local_store := m2, disk := f2 \<rparr>,
            if ok2 then ImportedLocal else BothFailed))"
proof (cases ok1)
  case True
  with assms show ?thesis by (simp add: import_fallback_main_def Let_def)
next
  case False
  with assms(4) have "f1 = disk w"
    using attempt_failed[of c records "primary w" "disk w" m1 f1] by simp
  with False assms show ?thesis by (simp add: import_fallback_main_def Let_def)
qed

lemma store_to_db_main_tier:
  assumes "MONGO_URI c \<noteq> None" and "load_rows c \<noteq> []" and "store_to_db_main c w = (v, io)"
  shows "attempts (primary v) = attempts (primary w) + 1
       \<and> (io = Upserted \<or> io = Degraded)
       \<and> (\<not> reachable (primary w) \<or> \<not> accepts_writes (primary w) \<longrightarrow> io = Degraded)
       \<and> (io = Degraded \<longrightarrow> fallback_file (disk v) = Some (map (json_dumps c) (load_rows c)))"
proof -
  have "attempts (fst (upsert_to_mongo (load_rows c) ((primary w)\<lparr>attempts := attempts (primary w) + 1\<rparr>)))
      = attempts (primary w) + 1"
    by (simp add: upsert_to_mongo_attempts)
  moreover have "snd (upsert_to_mongo (load_rows c) ((primary w)\<lparr>attempts := attempts (primary w) + 1\<rparr>)) \<noteq> None"
    if "\<not> accepts_writes (primary w)"
    using upsert_to_mongo_refused[of "(primary w)\<lparr>attempts := attempts (primary w) + 1\<rparr>" "load_rows c"]
      that assms(2) by simp
  ultimately show ?thesis using assms
    by (auto simp: store_to_db_main_def ping_def Let_def save_fallback_def
          split: option.splits prod.splits bool.splits)
qed

lemma no_break_space_is_blank: "\<not> nonblank [CHR 0xA0] \<and> \<not> nonblank [CHR 0x85, CHR 0x20]"
  by (simp add: nonblank_def strip_def isspace_def)

section \<open>The durable log\<close>

text \<open>
  C4, as stated: the lines that the log holds before a Degraded transition are still in
  it after the write.  \<open>save_fallback\<close> opens the file with mode \<open>"w"\<close>: an ingestion run
  that finds the store down, with a log that holds the line of an earlier record, leaves
  a log with the lines of its own two rows, and the earlier line is gone.
\<close>

theorem degraded_run_replaces_log:
  "store_to_db_main example_config (example_world (Some [line_no_url]) server_down server_up)
     = (example_world (Some [line_one, line_two]) (server_down\<lparr> attempts := 1 \<rparr>) server_up, Degraded)
   \<and> line_no_url \<notin> set [line_one, line_two]"
  by (simp add: store_eval)

text \<open>
  C4, amended: after every Degraded transition the log holds one line for each pending
  row of the run, in the order of the rows, and nothing else; what the file held before
  is replaced.  The imported file is not touched.
\<close>

theorem degraded_run_writes_pending_rows:
  assumes "store_to_db_main c w = (w', Degraded)"
  shows "fallback_file (disk w') = Some (map (json_dumps c) (load_rows c))
       \<and> imported_file (disk w') = imported_file (disk w)"
  using assms
  by (auto simp: store_to_db_main_def save_fallback_def Let_def
        split: option.splits if_splits prod.splits bool.splits)

theorem degraded_run_writes_pending_rows_witness:
  "store_to_db_main example_config (example_world None server_down server_up)
     = (example_world (Some [line_one, line_two]) (server_down\<lparr> attempts := 1 \<rparr>) server_up, Degraded)
   \<and> fallback_file (disk (example_world (Some [line_one, line_two]) (server_down\<lparr> attempts := 1 \<rparr>) server_up))
     = Some (map (json_dumps example_config) (load_rows example_config))"
proof -
  have h: "store_to_db_main example_config (example_world None server_down server_up)
     = (example_world (Some [line_one, line_two]) (server_down\<lparr> attempts := 1 \<rparr>) server_up, Degraded)"
    by (simp add: store_eval)
  from degraded_run_writes_pending_rows[OF h] h show ?thesis by simp
qed

text \<open>
  C5, as stated: a reconciliation run skips a malformed line and reconciles the
  well-formed records of the rest of the log.  \<open>load_fallback\<close> parses every non-blank
  line in one list comprehension with no handler: on a log whose first line is cut off
  and whose second line is a well-formed record, the exception leaves \<open>main\<close> before any
  store is contacted, and the reachable store does not get the record.
\<close>

theorem broken_line_aborts_example:
  "import_fallback_main example_config
       (example_world (Some [line_broken, line_one]) server_down server_up)
     = (example_world (Some [line_broken, line_one]) server_down server_up,
        Crashed JSONDecodeError)
   \<and> example_loads line_one = Some rec_one
   \<and> \<not> store_contains (docs server_up) rec_one"
  by (simp add: store_eval)

text \<open>
  C5, amended: when the log has a non-blank line that \<open>json.loads\<close> rejects, the
  reconciliation run ends with the decoding error and changes nothing: no record of the
  log reaches a store, no store is contacted, the log is not renamed, and no count of
  skipped lines is produced.  Only blank lines are skipped.
\<close>

theorem malformed_line_aborts_run:
  assumes "fallback_file (disk w) = Some lines"
    and "l \<in> set lines" and "nonblank l" and "json_loads c l = None"
  shows "import_fallback_main c w = (w, Crashed JSONDecodeError)"
proof -
  from assms(2,3) have "l \<in> set (filter nonblank lines)" by simp
  from loads_all_fails[of l "filter nonblank lines" "json_loads c", OF this assms(4)] assms(1)
  have "load_fallback c (disk w) = Inl JSONDecodeError"
    by (simp add: load_fallback_def)
  then show ?thesis by (simp add: import_fallback_main_def)
qed

theorem malformed_line_aborts_run_witness:
  "import_fallback_main example_config
       (example_world (Some [line_one, [], line_broken, line_two]) server_up server_up)
     = (example_world (Some [line_one, [], line_broken, line_two]) server_up server_up,
        Crashed JSONDecodeError)"
  using malformed_line_aborts_run
    [of "example_world (Some [line_one, [], line_broken, line_two]) server_up server_up"
        "[line_one, [], line_broken, line_two]" line_broken example_config]
  by (simp add: store_eval)

section \<open>Store tiers\<close>

text \<open>
  C8, as stated: an error against a store tier is retried, with backoff, before the
  tier is declared failed.  Neither script has a retry: with the configured store down,
  the reconciliation run probes it once and goes on to the local store, and the
  ingestion run probes it once and writes the log.
\<close>

theorem failed_tier_not_retried:
  "attempts (primary (fst (import_fallback_main example_config
       (example_world (Some [line_one]) server_down server_up)))) = 1
   \<and> snd (import_fallback_main example_config
       (example_world (Some [line_one]) server_down server_up)) = ImportedLocal
   \<and> attempts (primary (fst (store_to_db_main example_config
       (example_world None server_down server_up)))) = 1
   \<and> snd (store_to_db_main example_config
       (example_world None server_down server_up)) = Degraded"
  by (simp add: store_eval)

text \<open>
  C8, amended: in every reconciliation run and every ingestion run each store tier is
  tried at most once; an error against a tier is not retried.  A reconciliation run
  with records and a configured store tries that store exactly once, and when that try
  fails, for a store that is down or for any other error, it tries the local store
  exactly once, and not otherwise.  An ingestion run with rows tries its store exactly
  once, and when that try fails it writes the log; it never contacts the local store.
\<close>

theorem each_tier_tried_once_then_next:
  "attempts (primary (fst (import_fallback_main c w))) \<le> attempts (primary w) + 1
   \<and> attempts (local_store (fst (import_fallback_main c w))) \<le> attempts (local_store w) + 1
   \<and> attempts (primary (fst (store_to_db_main c w))) \<le> attempts (primary w) + 1
   \<and> local_store (fst (store_to_db_main c w)) = local_store w
   \<and> (\<forall>records w' out.
         load_fallback c (disk w) = Inr records \<and> records \<noteq> [] \<and> configured_uri c \<noteq> []
         \<and> import_fallback_main c w = (w', out) \<longrightarrow>
           attempts (primary w') = attempts (primary w) + 1
         \<and> (out = ImportedPrimary) = snd (snd (attempt c records (primary w) (disk w)))
         \<and> (out = ImportedPrimary \<longrightarrow> local_store w' = local_store w)
         \<and> (out \<noteq> ImportedPrimary \<longrightarrow>
               attempts (local_store w') = attempts (local_store w) + 1
             \<and> (out = ImportedLocal) = snd (snd (attempt c records (local_store w) (disk w)))
             \<and> (out = ImportedLocal \<or> out = BothFailed)
             \<and> (\<not> reachable (local_store w) \<or> \<not> accepts_writes (local_store w)
                  \<longrightarrow> out = BothFailed))
         \<and> (\<not> reachable (primary w) \<or> \<not> accepts_writes (primary w)
              \<longrightarrow> out \<noteq> ImportedPrimary))
   \<and> (\<forall>v io.
         MONGO_URI c \<noteq> None \<and> load_rows c \<noteq> [] \<and> store_to_db_main c w = (v, io) \<longrightarrow>
           attempts (primary v) = attempts (primary w) + 1
         \<and> (io = Upserted \<or> io = Degraded)
         \<and> (\<not> reachable (primary w) \<or> \<not> accepts_writes (primary w) \<longrightarrow> io = Degraded)
         \<and> (io = Degraded \<longrightarrow>
               fallback_file (disk v) = Some (map (json_dumps c) (load_rows c))))"
proof -
  have s: "attempts (primary (fst (store_to_db_main c w))) \<le> attempts (primary w) + 1
      \<and> local_store (fst (store_to_db_main c w)) = local_store w"
  proof -
    have "attempts (fst (upsert_to_mongo (load_rows c) ((primary w)\<lparr>attempts := attempts (primary w) + 1\<rparr>)))
        = attempts (primary w) + 1"
      by (simp add: upsert_to_mongo_attempts)
    then show ?thesis
      by (auto simp: store_to_db_main_def ping_def Let_def
            split: option.splits prod.splits bool.splits)
  qed
  have i: "attempts (primary (fst (import_fallback_main c w))) \<le> attempts (primary w) + 1
      \<and> attempts (local_store (fst (import_fallback_main c w))) \<le> attempts (local_store w) + 1"
  proof (cases "load_fallback c (disk w)")
    case (Inl e)
    then show ?thesis by (simp add: import_fallback_main_def)
  next
    case (Inr records)
    show ?thesis
    proof (cases "records = []")
      case True
      with Inr show ?thesis by (simp add: import_fallback_main_def)
    next
      case False
      obtain m1 f1 ok1 where a1: "attempt c records (primary w) (disk w) = (m1, f1, ok1)"
        and n1: "attempts m1 = attempts (primary w) + 1"
        by (rule attempt_cases)
      obtain m2 f2 ok2 where a2: "attempt c records (local_store w) f1 = (m2, f2, ok2)"
        and n2: "attempts m2 = attempts (local_store w) + 1"
        by (rule attempt_cases)
      obtain m3 f3 ok3 where a3: "attempt c records (local_store w) (disk w) = (m3, f3, ok3)"
        and n3: "attempts m3 = attempts (local_store w) + 1"
        by (rule attempt_cases)
      from Inr False a1 n1 a2 n2 a3 n3 show ?thesis
        by (simp add: import_fallback_main_def Let_def)
    qed
  qed
  have r: "attempts (primary w') = attempts (primary w) + 1
         \<and> (out = ImportedPrimary) = snd (snd (attempt c records (primary w) (disk w)))
         \<and> (out = ImportedPrimary \<longrightarrow> local_store w' = local_store w)
         \<and> (out \<noteq> ImportedPrimary \<longrightarrow>
               attempts (local_store w') = attempts (local_store w) + 1
             \<and> (out = ImportedLocal) = snd (snd (attempt c records (local_store w) (disk w)))
             \<and> (out = ImportedLocal \<or> out = BothFailed)
             \<and> (\<not> reachable (local_store w) \<or> \<not> accepts_writes (local_store w)
                  \<longrightarrow> out = BothFailed))
         \<and> (\<not> reachable (primary w) \<or> \<not> accepts_writes (primary w)
              \<longrightarrow> out \<noteq> ImportedPrimary)"
    if h: "load_fallback c (disk w) = Inr records" "records \<noteq> []" "configured_uri c \<noteq> []"
      "import_fallback_main c w = (w', out)"
    for records w' out
  proof -
    obtain m1 f1 ok1 where a1: "attempt c records (primary w) (disk w) = (m1, f1, ok1)"
      and n1: "attempts m1 = attempts (primary w) + 1"
      by (rule attempt_cases)
    obtain m2 f2 ok2 where a2: "attempt c records (local_store w) (disk w) = (m2, f2, ok2)"
      and n2: "attempts m2 = attempts (local_store w) + 1"
      by (rule attempt_cases)
    have u: "\<not> reachable (primary w) \<or> \<not> accepts_writes (primary w) \<Longrightarrow> \<not> ok1"
      using attempt_unreachable[of "primary w" c records "disk w"] a1 by simp
    have u2: "\<not> reachable (local_store w) \<or> \<not> accepts_writes (local_store w) \<Longrightarrow> \<not> ok2"
      using attempt_unreachable[of "local_store w" c records "disk w"] a2 by simp
    from import_fallback_main_tiers[OF h(1,2,3) a1 a2] h(4)
    have "(w', out) = (if ok1 then (w\<lparr> primary := m1, disk := f1 \<rparr>, ImportedPrimary)
      else (w\<lparr> primary := m1, local_store := m2, disk := f2 \<rparr>,
            if ok2 then ImportedLocal else BothFailed))"
      by simp
    with a1 a2 n1 n2 u u2 show ?thesis by (cases ok1; cases ok2) auto
  qed
  have t: "attempts (primary v) = attempts (primary w) + 1
         \<and> (io = Upserted \<or> io = Degraded)
         \<and> (\<not> reachable (primary w) \<or> \<not> accepts_writes (primary w) \<longrightarrow> io = Degraded)
         \<and> (io = Degraded \<longrightarrow>
               fallback_file (disk v) = Some (map (json_dumps c) (load_rows c)))"
    if "MONGO_URI c \<noteq> None" "load_rows c \<noteq> []" "store_to_db_main c w = (v, io)" for v io
    using that by (rule store_to_db_main_tier)
  from s i r t show ?thesis by (intro conjI allI impI) blast+
qed

theorem each_tier_tried_once_then_next_witness:
  "import_fallback_main example_config
       (example_world (Some [line_one, line_two]) server_read_only server_up)
     = ((example_world (Some [line_one, line_two]) server_read_only server_up)
         \<lparr> disk := \<lparr> fallback_file = None, imported_file = Some [line_one, line_two] \<rparr>,
           primary := server_read_only\<lparr> attempts := 1 \<rparr>,
           local_store := fst (try_import example_config (server_up\<lparr> attempts := 1 \<rparr>) [rec_one, rec_two]) \<rparr>,
        ImportedLocal)
   \<and> attempts (local_store (fst (import_fallback_main example_config
       (example_world (Some [line_one, line_two]) server_read_only server_up)))) = 1
   \<and> snd (store_to_db_main example_config
       (example_world (Some [line_one, line_two]) server_read_only server_up)) = Degraded
   \<and> attempts (primary (fst (store_to_db_main example_config
       (example_world (Some [line_one, line_two]) server_read_only server_up)))) = 1"
proof -
  let ?w = "example_world (Some [line_one, line_two]) server_read_only server_up"
  let ?w' = "fst (import_fallback_main example_config ?w)"
  let ?v = "fst (store_to_db_main example_config ?w)"
  have l: "load_fallback example_config (disk ?w) = Inr [rec_one, rec_two]"
    and n: "[rec_one, rec_two] \<noteq> []" and u: "configured_uri example_config \<noteq> []"
    and k: "MONGO_URI example_config \<noteq> None" and o: "load_rows example_config \<noteq> []"
    by (simp_all add: store_eval)
  have out: "import_fallback_main example_config ?w = (?w', ImportedLocal)"
    by (simp add: store_eval)
  have io: "store_to_db_main example_config ?w = (?v, Degraded)"
    by (simp add: store_eval)
  have a0: "attempts (primary ?w) = 0" "attempts (local_store ?w) = 0"
    by (simp_all add: store_eval)
  from each_tier_tried_once_then_next[of example_config ?w] l n u out
  have "attempts (primary ?w') = attempts (primary ?w) + 1
      \<and> (ImportedLocal \<noteq> ImportedPrimary \<longrightarrow>
            attempts (local_store ?w') = attempts (local_store ?w) + 1)"
    by blast
  then have 1: "attempts (local_store ?w') = 1" unfolding a0 by simp
  from each_tier_tried_once_then_next[of example_config ?w] k o io
  have "attempts (primary ?v) = attempts (primary ?w) + 1" by blast
  then have 2: "attempts (primary ?v) = 1" unfolding a0 by simp
  have 3: "snd (store_to_db_main example_config ?w) = Degraded"
    by (simp add: store_eval)
  have 4: "import_fallback_main example_config ?w
     = (?w\<lparr> disk := \<lparr> fallback_file = None, imported_file = Some [line_one, line_two] \<rparr>,
           primary := server_read_only\<lparr> attempts := 1 \<rparr>,
           local_store := fst (try_import example_config (server_up\<lparr> attempts := 1 \<rparr>) [rec_one, rec_two]) \<rparr>,
        ImportedLocal)"
    by (simp add: store_eval)
  from 1 2 3 4 show ?thesis by (simp only: simp_thms)
qed

section \<open>Upsert operations\<close>

text \<open>
  C9, as stated: every pending record is written by an upsert whose filter is the URL
  of the record when it has one and its title otherwise, issued in batches.  This is
  what \<open>try_import\<close> builds.  The ingestion script builds its filter from the URL alone:
  for a record without \<open>url\<close> the filter is \<open>url = null\<close>, not the title, and
  \<open>upsert_to_mongo\<close> issues one write call for each row.
\<close>

theorem ingestion_filter_is_url_only:
  "upsert_op rec_no_url = Inr (UpdateOne ''url'' JNull rec_no_url True)
   \<and> import_op rec_no_url = Inr (UpdateOne ''title'' (JStr ''Three'') rec_no_url True)
   \<and> received (fst (upsert_to_mongo [rec_one, rec_two] server_up))
       = [[UpdateOne ''url'' (JStr ''http://h/article/1'') rec_one True],
          [UpdateOne ''url'' (JStr ''http://h/article/2'') rec_two True]]"
  by (simp add: store_eval)

text \<open>
  C9, amended: reconciliation (\<open>try_import\<close>, with a positive batch size) sends the
  records in their order in batches of one to \<open>BATCH_SIZE\<close> upserts, each filtered by the
  \<open>url\<close> of its record when that is present and not empty and by its \<open>title\<close> (\<open>null\<close> when
  missing) otherwise.  Ingestion (\<open>upsert_to_mongo\<close>) sends one upsert for each row in a
  call of its own, always filtered by \<open>url\<close> (\<open>null\<close> when missing), never by the title.
  Every one of these operations sets the fields of its record, and applying it a second
  time to the documents changes nothing.
\<close>

theorem upserts_keyed_and_batched:
  assumes "try_import c m records = (m', None)" and "0 < BATCH_SIZE c"
    and "upsert_to_mongo rows n = (n', None)"
  shows "(\<exists>opss. received m' = received m @ opss
            \<and> list_all2 (\<lambda>b ops. import_ops b = Inr ops) (chunks (nat (BATCH_SIZE c)) records) opss
            \<and> (\<forall>ops \<in> set opss. ops \<noteq> [] \<and> int (length ops) \<le> BATCH_SIZE c))
       \<and> concat (chunks (nat (BATCH_SIZE c)) records) = records
       \<and> (\<exists>ops. received n' = received n @ map (\<lambda>op. [op]) ops
            \<and> list_all2 (\<lambda>r op. upsert_op r = Inr op) rows ops)
       \<and> (\<forall>r op. import_op r = Inr op \<longrightarrow>
             upsert op \<and> set_fields op = r \<and>
             (case url_of r of
                Some u \<Rightarrow> filter_field op = ''url'' \<and> filter_value op = u
              | None \<Rightarrow> filter_field op = ''title'' \<and> py_get r ''title'' = Inr (filter_value op)))
       \<and> (\<forall>r op. upsert_op r = Inr op \<longrightarrow>
             upsert op \<and> set_fields op = r \<and> filter_field op = ''url''
             \<and> py_get r ''url'' = Inr (filter_value op))
       \<and> (\<forall>kvs op ds. (import_op (JObj kvs) = Inr op \<or> upsert_op (JObj kvs) = Inr op)
               \<and> distinct (map fst kvs) \<longrightarrow>
             update_docs op (update_docs op ds) = update_docs op ds)"
proof -
  from try_import_ok[OF assms(1,2)] obtain opss where
    i: "list_all2 (\<lambda>b ops. import_ops b = Inr ops) (chunks (nat (BATCH_SIZE c)) records) opss"
      "received m' = received m @ opss"
    by blast
  have b: "\<forall>ops \<in> set opss. ops \<noteq> [] \<and> int (length ops) \<le> BATCH_SIZE c"
  proof
    fix ops assume "ops \<in> set opss"
    from list_all2_setD[OF i(1) this] obtain b where
      b: "b \<in> set (chunks (nat (BATCH_SIZE c)) records)" "import_ops b = Inr ops" by blast
    from chunks_bounded[OF b(1)] import_ops_length[OF b(2)] assms(2)
    show "ops \<noteq> [] \<and> int (length ops) \<le> BATCH_SIZE c" by auto
  qed
  have 1: "\<exists>opss. received m' = received m @ opss
            \<and> list_all2 (\<lambda>b ops. import_ops b = Inr ops) (chunks (nat (BATCH_SIZE c)) records) opss
            \<and> (\<forall>ops \<in> set opss. ops \<noteq> [] \<and> int (length ops) \<le> BATCH_SIZE c)"
    using i b by blast
  have 2: "concat (chunks (nat (BATCH_SIZE c)) records) = records"
    using assms(2) by (simp add: chunks_concat)
  have 3: "\<exists>ops. received n' = received n @ map (\<lambda>op. [op]) ops
            \<and> list_all2 (\<lambda>r op. upsert_op r = Inr op) rows ops"
    using upsert_to_mongo_ok[OF assms(3)] by blast
  have 4: "\<forall>r op. import_op r = Inr op \<longrightarrow>
             upsert op \<and> set_fields op = r \<and>
             (case url_of r of
                Some u \<Rightarrow> filter_field op = ''url'' \<and> filter_value op = u
              | None \<Rightarrow> filter_field op = ''title'' \<and> py_get r ''title'' = Inr (filter_value op))"
    using import_op_key by blast
  have 5: "\<forall>r op. upsert_op r = Inr op \<longrightarrow>
             upsert op \<and> set_fields op = r \<and> filter_field op = ''url''
             \<and> py_get r ''url'' = Inr (filter_value op)"
    using upsert_op_key by blast
  have 6: "\<forall>kvs op ds. (import_op (JObj kvs) = Inr op \<or> upsert_op (JObj kvs) = Inr op)
               \<and> distinct (map fst kvs) \<longrightarrow>
             update_docs op (update_docs op ds) = update_docs op ds"
    using import_op_self_keyed upsert_op_self_keyed update_docs_replay by blast
  from 1 2 3 4 5 6 show ?thesis by (intro conjI)
qed

theorem upserts_keyed_and_batched_witness:
  "try_import small_batches server_up [rec_one, rec_no_url]
     = (server_up\<lparr> docs := [[(''url'', JStr ''http://h/article/1''), (''title'', JStr ''One'')],
                             [(''title'', JStr ''Three'')]],
                   received := [[UpdateOne ''url'' (JStr ''http://h/article/1'') rec_one True],
                                [UpdateOne ''title'' (JStr ''Three'') rec_no_url True]] \<rparr>, None)
   \<and> 0 < BATCH_SIZE small_batches
   \<and> snd (upsert_to_mongo [rec_one, rec_no_url] server_up) = None
   \<and> concat (chunks (nat (BATCH_SIZE small_batches)) [rec_one, rec_no_url]) = [rec_one, rec_no_url]
   \<and> update_docs (UpdateOne ''title'' (JStr ''Three'') rec_no_url True)
       (update_docs (UpdateOne ''title'' (JStr ''Three'') rec_no_url True) [])
     = update_docs (UpdateOne ''title'' (JStr ''Three'') rec_no_url True) []"
proof -
  let ?m = "server_up\<lparr> docs := [[(''url'', JStr ''http://h/article/1''), (''title'', JStr ''One'')],
                             [(''title'', JStr ''Three'')]],
                   received := [[UpdateOne ''url'' (JStr ''http://h/article/1'') rec_one True],
                                [UpdateOne ''title'' (JStr ''Three'') rec_no_url True]] \<rparr>"
  have h: "try_import small_batches server_up [rec_one, rec_no_url] = (?m, None)"
    by (simp add: store_eval)
  have p: "0 < BATCH_SIZE small_batches"
    by (simp add: store_eval)
  have u: "upsert_to_mongo [rec_one, rec_no_url] server_up
     = (fst (upsert_to_mongo [rec_one, rec_no_url] server_up), None)"
    by (simp add: store_eval)
  have o: "import_op (JObj [(''title'', JStr ''Three'')])
     = Inr (UpdateOne ''title'' (JStr ''Three'') rec_no_url True)"
    by (simp add: store_eval)
  from upserts_keyed_and_batched[OF h p u]
  have c: "concat (chunks (nat (BATCH_SIZE small_batches)) [rec_one, rec_no_url]) = [rec_one, rec_no_url]"
    and r: "\<forall>kvs op ds. (import_op (JObj kvs) = Inr op \<or> upsert_op (JObj kvs) = Inr op)
               \<and> distinct (map fst kvs) \<longrightarrow>
             update_docs op (update_docs op ds) = update_docs op ds"
    by blast+
  from r o have "update_docs (UpdateOne ''title'' (JStr ''Three'') rec_no_url True)
       (update_docs (UpdateOne ''title'' (JStr ''Three'') rec_no_url True) [])
     = update_docs (UpdateOne ''title'' (JStr ''Three'') rec_no_url True) []"
    by (elim allE[of _ "[(''title'', JStr ''Three'')]"] allE[of _ "UpdateOne ''title'' (JStr ''Three'') rec_no_url True"] allE[of _ "[]"]) simp
  moreover have "snd (upsert_to_mongo [rec_one, rec_no_url] server_up) = None"
    by (simp add: store_eval)
  moreover note h p c
  ultimately show ?thesis by (simp only: simp_thms)
qed

section \<open>Reconciliation of the log\<close>

text \<open>
  C3, as stated: after a reconciliation run that succeeds, the store contains every
  record that was in the log.  A later record of the log with the same URL, or a later
  record with an empty URL and the same title, is written over the document of an
  earlier one; and with a negative batch size the run writes nothing and still
  succeeds and renames the log.
\<close>

theorem reconciled_record_overwritten:
  "example_loads line_one = Some rec_one
   \<and> snd (import_fallback_main example_config
        (example_world (Some [line_one, line_uno]) server_down server_up)) = ImportedLocal
   \<and> \<not> store_contains (docs (local_store (fst (import_fallback_main example_config
        (example_world (Some [line_one, line_uno]) server_down server_up))))) rec_one
   \<and> snd (import_fallback_main example_config
        (example_world (Some [line_one, line_blank_url]) server_down server_up)) = ImportedLocal
   \<and> \<not> store_contains (docs (local_store (fst (import_fallback_main example_config
        (example_world (Some [line_one, line_blank_url]) server_down server_up))))) rec_one
   \<and> snd (import_fallback_main negative_batches
        (example_world (Some [line_one]) server_down server_up)) = ImportedLocal
   \<and> docs (local_store (fst (import_fallback_main negative_batches
        (example_world (Some [line_one]) server_down server_up)))) = []"
  by (simp add: store_eval)

text \<open>
  C3, amended: for a log whose records all have a non-empty URL, no two the same, and a
  positive batch size, a reconciliation run that succeeds leaves in the store it wrote
  to, for every record of the log, a document with all the fields of the record; the
  log file is renamed to the imported file; and a second run finds no log, loads no
  record and changes nothing.
\<close>

theorem reconciled_records_stored:
  assumes "import_fallback_main c w = (w', out)"
    and "out = ImportedPrimary \<or> out = ImportedLocal"
    and "load_fallback c (disk w) = Inr records"
    and "0 < BATCH_SIZE c"
    and "\<forall>r \<in> set records. url_of r \<noteq> None"
    and "distinct (map url_of records)"
  shows "(\<forall>r \<in> set records. store_contains (docs (imported_store out w')) r)
       \<and> disk w' = \<lparr> fallback_file = None, imported_file = fallback_file (disk w) \<rparr>
       \<and> import_fallback_main c w' = (w', NoRecords)"
proof -
  from import_success[OF assms(1,2,3)]
  have a: "attempt c records (imported_store out w) (disk w)
             = (imported_store out w', disk w', True)" .
  from attempt_ok[OF a]
  have d: "disk w' = \<lparr> fallback_file = None, imported_file = fallback_file (disk w) \<rparr>"
    and t: "try_import c ((imported_store out w)\<lparr> attempts := attempts (imported_store out w) + 1 \<rparr>) records
              = (imported_store out w', None)"
    by simp_all
  from try_import_ok[OF t assms(4)] obtain opss where
    o: "docs (imported_store out w') = fold update_docs (concat opss) (docs (imported_store out w))"
      "import_ops records = Inr (concat opss)"
    by auto
  have s: "\<forall>r \<in> set records. store_contains (docs (imported_store out w')) r"
  proof
    fix r assume "r \<in> set records"
    from fold_contains[OF this assms(5,6) o(2)]
    show "store_contains (docs (imported_store out w')) r" by (simp add: o(1))
  qed
  have n: "import_fallback_main c w' = (w', NoRecords)"
    by (simp add: import_fallback_main_def load_fallback_def d)
  from s d n show ?thesis by simp
qed

theorem reconciled_records_stored_witness:
  "snd (import_fallback_main small_batches
          (example_world (Some [line_one, [], line_two]) server_down server_up)) = ImportedLocal
   \<and> load_fallback small_batches (disk (example_world (Some [line_one, [], line_two]) server_down server_up))
       = Inr [rec_one, rec_two]
   \<and> store_contains (docs (local_store (fst (import_fallback_main small_batches
          (example_world (Some [line_one, [], line_two]) server_down server_up))))) rec_one
   \<and> store_contains (docs (local_store (fst (import_fallback_main small_batches
          (example_world (Some [line_one, [], line_two]) server_down server_up))))) rec_two
   \<and> disk (fst (import_fallback_main small_batches
          (example_world (Some [line_one, [], line_two]) server_down server_up)))
       = \<lparr> fallback_file = None, imported_file = Some [line_one, [], line_two] \<rparr>
   \<and> snd (import_fallback_main small_batches (fst (import_fallback_main small_batches
          (example_world (Some [line_one, [], line_two]) server_down server_up)))) = NoRecords"
proof -
  let ?w = "example_world (Some [line_one, [], line_two]) server_down server_up"
  let ?w' = "fst (import_fallback_main small_batches ?w)"
  have h: "import_fallback_main small_batches ?w = (?w', ImportedLocal)"
    by (simp add: store_eval)
  have l: "load_fallback small_batches (disk ?w) = Inr [rec_one, rec_two]"
    by (simp add: store_eval)
  have p: "0 < BATCH_SIZE small_batches"
    by (simp add: store_eval)
  have u: "\<forall>r \<in> set [rec_one, rec_two]. url_of r \<noteq> None"
    by (simp add: store_eval)
  have k: "distinct (map url_of [rec_one, rec_two])"
    by (simp add: store_eval)
  from reconciled_records_stored[OF h _ l p u k]
  have "(\<forall>r \<in> set [rec_one, rec_two]. store_contains (docs (imported_store ImportedLocal ?w')) r)
       \<and> disk ?w' = \<lparr> fallback_file = None, imported_file = fallback_file (disk ?w) \<rparr>
       \<and> import_fallback_main small_batches ?w' = (?w', NoRecords)"
    by simp
  then have "store_contains (docs (local_store ?w')) rec_one"
    and "store_contains (docs (local_store ?w')) rec_two"
    and "disk ?w' = \<lparr> fallback_file = None, imported_file = Some [line_one, [], line_two] \<rparr>"
    and "snd (import_fallback_main small_batches ?w') = NoRecords"
    by (simp_all add: imported_store_def example_world_def)
  moreover have "snd (import_fallback_main small_batches ?w) = ImportedLocal"
    by (simp add: store_eval)
  moreover note l
  ultimately show ?thesis by (simp only: simp_thms)
qed

end
